theory Spec2Isabelle
  imports Complex_Main "HOL-Library.Sublist"
begin

section \<open>Bulk option add and remove: the two routes of option-remove-app\<close>

text \<open>
  The repository has two Remix routes of the same shape. The add route
  (\<^verbatim>\<open>app/routes/app.additional.jsx\<close>) creates a named option on every product that
  lacks it; the remove route (\<^verbatim>\<open>app/routes/index.jsx\<close>) removes the first option
  whose name contains a search term from every product. Each route has a
  \<^verbatim>\<open>loader\<close> that pages through the whole catalogue and an \<^verbatim>\<open>action\<close> that
  re-reads the catalogue and then issues one or two mutations per product.

  The embedding starts after \<^verbatim>\<open>authenticate.admin(request)\<close> has produced the
  \<^verbatim>\<open>admin\<close> client. A string is the list of its characters. What
  \<^verbatim>\<open>toLowerCase\<close>, \<^verbatim>\<open>trim\<close> and \<^verbatim>\<open>JSON.parse\<close> compute is fixed by the JavaScript
  runtime and not by the repository, so the routes take these three functions as a
  parameter and every property below holds whatever they are.
\<close>

subsection \<open>Data model\<close>

text \<open>The nodes selected by \<^verbatim>\<open>PRODUCTS_QUERY\<close>. The add route selects only the
  \<^verbatim>\<open>id\<close> and \<^verbatim>\<open>name\<close> of an option and never reads the other two fields.\<close>

record option_value =
  value_id :: string
  value_name :: string

record product_option =
  option_id :: string
  option_name :: string
  option_position :: int
  optionValues :: "option_value list"

record product =
  product_id :: string
  product_title :: string
  product_options :: "product_option list"

record edge =
  cursor :: string
  node :: product

record page =
  edges :: "edge list"
  hasNextPage :: bool

record user_error =
  field :: "string list"
  message :: string

text \<open>A value produced by \<^verbatim>\<open>JSON.parse\<close>.\<close>

datatype json =
  JNull
| JBool bool
| JNumber real
| JString string
| JArray "json list"
| JObject "(string \<times> json) list"

text \<open>The variables of the three mutations.\<close>

record option_value_create =
  create_value_name :: json

record option_create =
  create_name :: string
  create_values :: "option_value_create list"

record option_update =
  update_id :: string
  update_name :: string
  update_position :: int

subsection \<open>The remote API\<close>

text \<open>
  One constructor per GraphQL document sent through \<^verbatim>\<open>admin.graphql\<close>, with its
  variables: \<^verbatim>\<open>AllProducts(first, after)\<close>, \<^verbatim>\<open>addOption(productId, options)\<close>,
  \<^verbatim>\<open>updateOptionValues(productId, option, optionValuesToDelete)\<close> and
  \<^verbatim>\<open>deleteOptions(productId, options)\<close>.
\<close>

datatype request =
  AllProducts nat "string option"
| AddOption string "option_create list"
| UpdateOptionValues string option_update "string list"
| DeleteOptions string "string list"

text \<open>
  What \<^verbatim>\<open>await resp.json()\<close> yields: the \<^verbatim>\<open>products\<close> connection of a listing, the
  \<^verbatim>\<open>userErrors\<close> of a mutation payload, or nothing because the call threw.
\<close>

datatype response =
  ProductsData page
| UserErrors "user_error list"
| Thrown

text \<open>
  The two ways a route aborts: the remote call itself throws, or the route reads a
  property of \<^verbatim>\<open>undefined\<close> (or calls something that is not a function).
\<close>

datatype error = RemoteError | TypeError

text \<open>
  The remote platform is any deterministic machine over a state of its own. The
  \<^verbatim>\<open>admin\<close> client pairs its current state with the list of calls made so far, which
  the routes never read: it is there to state which calls a route issues.
\<close>

type_synonym 's remote = "'s \<Rightarrow> request \<Rightarrow> response \<times> 's"

record 's admin =
  state :: 's
  calls :: "(request \<times> response) list"

definition graphql :: "'s remote \<Rightarrow> 's admin \<Rightarrow> request \<Rightarrow> response \<times> 's admin" where
  "graphql g a req =
     (case g (state a) req of
        (resp, s') \<Rightarrow> (resp, \<lparr>state = s', calls = calls a @ [(req, resp)]\<rparr>))"

text \<open>A remote that replays a fixed list of responses, whatever it is asked.\<close>

fun scripted :: "response list remote" where
  "scripted [] req = (Thrown, [])"
| "scripted (r # rs) req = (r, rs)"

subsection \<open>Built-ins of the runtime\<close>

text \<open>
  \<^verbatim>\<open>String.prototype.toLowerCase\<close>, \<^verbatim>\<open>String.prototype.trim\<close> and \<^verbatim>\<open>JSON.parse\<close>, as
  the runtime provides them; for \<^verbatim>\<open>JSON.parse\<close> the value \<^term>\<open>None\<close> is a thrown
  \<^verbatim>\<open>SyntaxError\<close>.
\<close>

record builtins =
  toLowerCase :: "string \<Rightarrow> string"
  trim :: "string \<Rightarrow> string"
  JSON_parse :: "string \<Rightarrow> json option"

text \<open>\<^verbatim>\<open>s.includes(t)\<close>: \<^verbatim>\<open>t\<close> occurs in \<^verbatim>\<open>s\<close> at some position.\<close>

fun string_includes :: "string \<Rightarrow> string \<Rightarrow> bool" where
  "string_includes [] t = (t = [])"
| "string_includes (c # cs) t = (prefix t (c # cs) \<or> string_includes cs t)"

text \<open>\<^verbatim>\<open>xs.join(sep)\<close>.\<close>

fun join :: "string \<Rightarrow> string list \<Rightarrow> string" where
  "join sep [] = []"
| "join sep [x] = x"
| "join sep (x # y # ys) = x @ sep @ join sep (y # ys)"

subsection \<open>The catalogue reader\<close>

text \<open>
  The loop \<^verbatim>\<open>while (hasNext) { ... }\<close> of both loaders and both actions. It is
  entered with \<^verbatim>\<open>hasNext = true\<close>, so its body runs at least once. The value
  \<^term>\<open>None\<close> stands for a loop that never ends.
\<close>

partial_function (option) fetchAll ::
  "'s remote \<Rightarrow> product list \<Rightarrow> string option \<Rightarrow> 's admin \<Rightarrow> ((error + product list) \<times> 's admin) option"
where
  "fetchAll g all after a =
     (case graphql g a (AllProducts 250 after) of
        (ProductsData p, a') \<Rightarrow>
          (let all' = all @ map node (edges p) in
           if hasNextPage p then
             (case edges p of
                [] \<Rightarrow> Some (Inl TypeError, a')
              | _ # _ \<Rightarrow> fetchAll g all' (Some (cursor (last (edges p)))) a')
           else Some (Inr all', a'))
      | (UserErrors ue, a') \<Rightarrow> Some (Inl TypeError, a')
      | (Thrown, a') \<Rightarrow> Some (Inl RemoteError, a'))"

definition loader :: "'s remote \<Rightarrow> 's admin \<Rightarrow> ((error + product list) \<times> 's admin) option" where
  "loader g a = fetchAll g [] None a"

subsection \<open>Requests and results of the actions\<close>

text \<open>The two fields read from \<^verbatim>\<open>request.formData()\<close>; \<^term>\<open>None\<close> is an absent field.\<close>

record form =
  form_optionName :: "string option"
  form_values :: "string option"

text \<open>The object handed to \<^verbatim>\<open>json(...)\<close>; a key that is not written is \<^term>\<open>None\<close>.\<close>

record action_json =
  success :: bool
  error :: "string option"
  addedCount :: "nat option"

text \<open>
  \<^verbatim>\<open>form.get("optionName")?.toString().trim() || ""\<close> and
  \<^verbatim>\<open>form.get("values")?.toString() || ""\<close>.
\<close>

definition form_name :: "builtins \<Rightarrow> form \<Rightarrow> string" where
  "form_name rt frm = (case form_optionName frm of None \<Rightarrow> [] | Some s \<Rightarrow> trim rt s)"

definition form_json :: "form \<Rightarrow> string" where
  "form_json frm = (case form_values frm of None \<Rightarrow> [] | Some s \<Rightarrow> s)"

definition failure :: "string \<Rightarrow> action_json" where
  "failure msg = \<lparr>success = False, error = Some msg, addedCount = None\<rparr>"

subsection \<open>The add route\<close>

text \<open>\<^verbatim>\<open>all.filter(p => !p.options.some(o => o.name.toLowerCase() === optionName.toLowerCase()))\<close>\<close>

definition toAdd :: "builtins \<Rightarrow> string \<Rightarrow> product list \<Rightarrow> product list" where
  "toAdd rt optionName all =
     filter (\<lambda>p. \<not> list_ex (\<lambda>opt. toLowerCase rt (option_name opt) = toLowerCase rt optionName)
                       (product_options p)) all"

text \<open>
  One iteration of \<^verbatim>\<open>for (const prod of toAdd)\<close>, with \<open>prd\<close> for the loop variable.
  The option input is built before the call, and \<^verbatim>\<open>values.map\<close> exists only when
  \<^verbatim>\<open>values\<close> is an array.
\<close>

definition add_product ::
  "'s remote \<Rightarrow> string \<Rightarrow> json \<Rightarrow> product \<Rightarrow> string list \<Rightarrow> 's admin \<Rightarrow> (error + string list) \<times> 's admin"
where
  "add_product g optionName vals prd errors a =
     (case vals of
        JArray vs \<Rightarrow>
          (let optionInput =
                 [\<lparr>create_name = optionName,
                   create_values = map (\<lambda>v. \<lparr>create_value_name = v\<rparr>) vs\<rparr>]
           in case graphql g a (AddOption (product_id prd) optionInput) of
                (UserErrors userErrors, a') \<Rightarrow>
                  (Inr (if userErrors \<noteq> [] then errors @ map message userErrors else errors), a')
              | (ProductsData p, a') \<Rightarrow> (Inl TypeError, a')
              | (Thrown, a') \<Rightarrow> (Inl RemoteError, a'))
      | _ \<Rightarrow> (Inl TypeError, a))"

fun add_loop ::
  "'s remote \<Rightarrow> string \<Rightarrow> json \<Rightarrow> product list \<Rightarrow> string list \<Rightarrow> 's admin \<Rightarrow> (error + string list) \<times> 's admin"
where
  "add_loop g optionName vals [] errors a = (Inr errors, a)"
| "add_loop g optionName vals (prd # rest) errors a =
     (case add_product g optionName vals prd errors a of
        (Inl e, a') \<Rightarrow> (Inl e, a')
      | (Inr errors', a') \<Rightarrow> add_loop g optionName vals rest errors' a')"

text \<open>The action of the add route.\<close>

definition action_add ::
  "builtins \<Rightarrow> 's remote \<Rightarrow> form \<Rightarrow> 's admin \<Rightarrow> ((error + action_json) \<times> 's admin) option"
where
  "action_add rt g frm a =
     (let optionName = form_name rt frm;
          valuesJSON = form_json frm
      in if optionName = [] then Some (Inr (failure ''Please enter an option name.''), a)
         else if valuesJSON = [] then Some (Inr (failure ''Please provide three values.''), a)
         else
           (case JSON_parse rt valuesJSON of
              None \<Rightarrow> Some (Inr (failure ''Invalid values format.''), a)
            | Some vals \<Rightarrow>
                (case fetchAll g [] None a of
                   None \<Rightarrow> None
                 | Some (Inl e, a') \<Rightarrow> Some (Inl e, a')
                 | Some (Inr all, a') \<Rightarrow>
                     (case add_loop g optionName vals (toAdd rt optionName all) [] a' of
                        (Inl e, a'') \<Rightarrow> Some (Inl e, a'')
                      | (Inr errors, a'') \<Rightarrow>
                          if errors \<noteq> [] then Some (Inr (failure (join ''; '' errors)), a'')
                          else Some (Inr \<lparr>success = True, error = None,
                                          addedCount = Some (length (toAdd rt optionName all))\<rparr>, a'')))))"

subsection \<open>The remove route\<close>

text \<open>\<^verbatim>\<open>prod.options.find(o => o.name.toLowerCase().includes(optionName.toLowerCase()))\<close>\<close>

definition find_option :: "builtins \<Rightarrow> string \<Rightarrow> product \<Rightarrow> product_option option" where
  "find_option rt optionName prd =
     find (\<lambda>opt. string_includes (toLowerCase rt (option_name opt)) (toLowerCase rt optionName))
          (product_options prd)"

text \<open>
  The second half of the loop body: the \<^verbatim>\<open>deleteOptions\<close> call. Of its payload only
  \<^verbatim>\<open>userErrors\<close> is read.
\<close>

definition delete_option ::
  "'s remote \<Rightarrow> product \<Rightarrow> product_option \<Rightarrow> string list \<Rightarrow> 's admin \<Rightarrow> (error + string list) \<times> 's admin"
where
  "delete_option g prd opt errors a =
     (case graphql g a (DeleteOptions (product_id prd) [option_id opt]) of
        (UserErrors userErrors, a') \<Rightarrow>
          (Inr (if userErrors \<noteq> [] then errors @ map message userErrors else errors), a')
      | (ProductsData p, a') \<Rightarrow> (Inl TypeError, a')
      | (Thrown, a') \<Rightarrow> (Inl RemoteError, a'))"

text \<open>
  One iteration of \<^verbatim>\<open>for (const prod of allProducts)\<close>. Both \<^verbatim>\<open>continue\<close>
  statements end the iteration with the errors recorded so far.
\<close>

definition remove_product ::
  "builtins \<Rightarrow> 's remote \<Rightarrow> string \<Rightarrow> product \<Rightarrow> string list \<Rightarrow> 's admin
     \<Rightarrow> (error + string list) \<times> 's admin"
where
  "remove_product rt g optionName prd errors a =
     (case find_option rt optionName prd of
        None \<Rightarrow> (Inr errors, a)
      | Some opt \<Rightarrow>
          if length (optionValues opt) > 1 then
            (let toDelete = drop 1 (map value_id (optionValues opt))
             in case graphql g a
                       (UpdateOptionValues (product_id prd)
                          \<lparr>update_id = option_id opt, update_name = option_name opt,
                           update_position = option_position opt\<rparr>
                          toDelete) of
                  (UserErrors ue, a') \<Rightarrow>
                    if ue \<noteq> [] then (Inr (errors @ map message ue), a')
                    else delete_option g prd opt errors a'
                | (ProductsData p, a') \<Rightarrow> (Inl TypeError, a')
                | (Thrown, a') \<Rightarrow> (Inl RemoteError, a'))
          else delete_option g prd opt errors a)"

fun remove_loop ::
  "builtins \<Rightarrow> 's remote \<Rightarrow> string \<Rightarrow> product list \<Rightarrow> string list \<Rightarrow> 's admin
     \<Rightarrow> (error + string list) \<times> 's admin"
where
  "remove_loop rt g optionName [] errors a = (Inr errors, a)"
| "remove_loop rt g optionName (prd # rest) errors a =
     (case remove_product rt g optionName prd errors a of
        (Inl e, a') \<Rightarrow> (Inl e, a')
      | (Inr errors', a') \<Rightarrow> remove_loop rt g optionName rest errors' a')"

definition action_remove ::
  "builtins \<Rightarrow> 's remote \<Rightarrow> form \<Rightarrow> 's admin \<Rightarrow> ((error + action_json) \<times> 's admin) option"
where
  "action_remove rt g frm a =
     (let optionName = form_name rt frm
      in if optionName = [] then Some (Inr (failure ''Please enter an option name.''), a)
         else
           (case fetchAll g [] None a of
              None \<Rightarrow> None
            | Some (Inl e, a') \<Rightarrow> Some (Inl e, a')
            | Some (Inr allProducts, a') \<Rightarrow>
                (case remove_loop rt g optionName allProducts [] a' of
                   (Inl e, a'') \<Rightarrow> Some (Inl e, a'')
                 | (Inr errors, a'') \<Rightarrow>
                     if errors \<noteq> [] then Some (Inr (failure (join ''; '' errors)), a'')
                     else Some (Inr \<lparr>success = True, error = None, addedCount = None\<rparr>, a''))))"

subsection \<open>Notions used to state the properties\<close>

text \<open>
  Case-insensitive comparison, decided by the lower-case forms the runtime gives: two
  strings are equal up to case when their lower-case forms are the same string; \<open>s\<close>
  contains \<open>t\<close> up to case when the lower-case form of \<open>t\<close> stands at some position
  of the lower-case form of \<open>s\<close>.
\<close>

definition ci_equal :: "builtins \<Rightarrow> string \<Rightarrow> string \<Rightarrow> bool" where
  "ci_equal rt s t = (toLowerCase rt s = toLowerCase rt t)"

definition ci_contains :: "builtins \<Rightarrow> string \<Rightarrow> string \<Rightarrow> bool" where
  "ci_contains rt s t =
     (\<exists>i \<in> {0..length (toLowerCase rt s)}.
        take (length (toLowerCase rt t)) (drop i (toLowerCase rt s)) = toLowerCase rt t)"

text \<open>
  On ASCII text lower-casing turns \<^verbatim>\<open>A\<close>..\<^verbatim>\<open>Z\<close> into \<^verbatim>\<open>a\<close>..\<^verbatim>\<open>z\<close> and leaves every
  other character as it is. For such text the comparison can be read letter by letter,
  without lower-casing: two characters are the same letter when they are equal or are
  the upper-case and lower-case form of one letter.
\<close>

definition ascii_lower :: "char \<Rightarrow> char" where
  "ascii_lower c =
     (let n = (of_char c :: nat) in if 65 \<le> n \<and> n \<le> 90 then char_of (n + 32) else c)"

definition ascii_lowercase :: "string \<Rightarrow> string" where
  "ascii_lowercase s = map ascii_lower s"

definition same_letter :: "char \<Rightarrow> char \<Rightarrow> bool" where
  "same_letter c d =
     (c = d \<or>
      (let m = (of_char c :: nat); n = (of_char d :: nat)
       in (65 \<le> m \<and> m \<le> 90 \<and> n = m + 32) \<or> (65 \<le> n \<and> n \<le> 90 \<and> m = n + 32)))"

definition ascii_ci_equal :: "string \<Rightarrow> string \<Rightarrow> bool" where
  "ascii_ci_equal s t = list_all2 same_letter s t"

definition ascii_ci_contains :: "string \<Rightarrow> string \<Rightarrow> bool" where
  "ascii_ci_contains s t = (\<exists>i \<in> {0..length s}. ascii_ci_equal (take (length t) (drop i s)) t)"

text \<open>
  The remote answers the successive listing requests of the reader with the pages
  \<open>ps\<close>, each request carrying the cursor of the last edge of the page before.
\<close>

fun serves :: "'s remote \<Rightarrow> 's \<Rightarrow> string option \<Rightarrow> page list \<Rightarrow> bool" where
  "serves g s after [] = True"
| "serves g s after (p # ps) =
     (case g s (AllProducts 250 after) of
        (resp, s') \<Rightarrow> resp = ProductsData p \<and> serves g s' (Some (cursor (last (edges p)))) ps)"

text \<open>The client after one listing request answered with page \<open>p\<close>.\<close>

definition fetched :: "'s admin \<Rightarrow> string option \<Rightarrow> page \<Rightarrow> 's \<Rightarrow> 's admin" where
  "fetched a after p s' =
     \<lparr>state = s', calls = calls a @ [(AllProducts 250 after, ProductsData p)]\<rparr>"

text \<open>The calls made between two moments of a client.\<close>

definition issued :: "'s admin \<Rightarrow> 's admin \<Rightarrow> (request \<times> response) list" where
  "issued a a' = drop (length (calls a)) (calls a')"

text \<open>The user errors a call reported, and whether it reported any.\<close>

fun reported :: "response \<Rightarrow> user_error list" where
  "reported (UserErrors ue) = ue"
| "reported (ProductsData p) = []"
| "reported Thrown = []"

definition messages :: "request \<times> response \<Rightarrow> string list" where
  "messages c = map message (reported (snd c))"


text \<open>The product a mutation is addressed to.\<close>

fun request_product :: "request \<Rightarrow> string option" where
  "request_product (AllProducts n after) = None"
| "request_product (AddOption pid opts) = Some pid"
| "request_product (UpdateOptionValues pid opt del) = Some pid"
| "request_product (DeleteOptions pid opts) = Some pid"

fun is_update :: "request \<Rightarrow> bool" where
  "is_update (UpdateOptionValues pid opt del) = True"
| "is_update (AllProducts n after) = False"
| "is_update (AddOption pid opts) = False"
| "is_update (DeleteOptions pid opts) = False"

fun is_listing :: "request \<Rightarrow> bool" where
  "is_listing (AllProducts n after) = True"
| "is_listing (AddOption pid opts) = False"
| "is_listing (UpdateOptionValues pid opt del) = False"
| "is_listing (DeleteOptions pid opts) = False"

text \<open>The requests of the three mutations, as the routes build them.\<close>

definition create_request :: "string \<Rightarrow> json list \<Rightarrow> product \<Rightarrow> request" where
  "create_request optionName vs prd =
     AddOption (product_id prd)
       [\<lparr>create_name = optionName, create_values = map (\<lambda>v. \<lparr>create_value_name = v\<rparr>) vs\<rparr>]"

definition update_request :: "product \<Rightarrow> product_option \<Rightarrow> request" where
  "update_request prd opt =
     UpdateOptionValues (product_id prd)
       \<lparr>update_id = option_id opt, update_name = option_name opt,
        update_position = option_position opt\<rparr>
       (tl (map value_id (optionValues opt)))"

definition delete_request :: "product \<Rightarrow> product_option \<Rightarrow> request" where
  "delete_request prd opt = DeleteOptions (product_id prd) [option_id opt]"

text \<open>
  The remote answers every mutation with a payload of user errors, empty or not: no
  mutation call throws.
\<close>

definition answers_mutations :: "'s remote \<Rightarrow> bool" where
  "answers_mutations g = (\<forall>s req. \<not> is_listing req \<longrightarrow> (\<exists>ue. fst (g s req) = UserErrors ue))"


subsection \<open>Sample data\<close>

definition red :: option_value where "red = \<lparr>value_id = ''v1'', value_name = ''Red''\<rparr>"
definition green :: option_value where "green = \<lparr>value_id = ''v2'', value_name = ''Green''\<rparr>"
definition blue :: option_value where "blue = \<lparr>value_id = ''v3'', value_name = ''Blue''\<rparr>"

definition colour :: product_option where
  "colour = \<lparr>option_id = ''o1'', option_name = ''Color'', option_position = 1,
             optionValues = [red, green, blue]\<rparr>"

definition title_option :: product_option where
  "title_option = \<lparr>option_id = ''o2'', option_name = ''Title'', option_position = 1,
                   optionValues = [\<lparr>value_id = ''v4'', value_name = ''Default Title''\<rparr>]\<rparr>"

definition shirt :: product where
  "shirt = \<lparr>product_id = ''p1'', product_title = ''Shirt'', product_options = [colour]\<rparr>"

definition mug :: product where
  "mug = \<lparr>product_id = ''p2'', product_title = ''Mug'', product_options = [title_option]\<rparr>"

definition pack_weight :: product_option where
  "pack_weight = \<lparr>option_id = ''o3'', option_name = ''Pack weight'', option_position = 2,
                  optionValues = [\<lparr>value_id = ''w1'', value_name = ''1 kg''\<rparr>,
                                  \<lparr>value_id = ''w2'', value_name = ''2 kg''\<rparr>,
                                  \<lparr>value_id = ''w3'', value_name = ''5 kg''\<rparr>]\<rparr>"

definition pack_size :: product_option where
  "pack_size = \<lparr>option_id = ''o4'', option_name = ''Pack size'', option_position = 3,
                optionValues = [\<lparr>value_id = ''s1'', value_name = ''Large''\<rparr>]\<rparr>"

definition tent :: product where
  "tent = \<lparr>product_id = ''p3'', product_title = ''Tent'',
           product_options = [title_option, pack_weight, pack_size]\<rparr>"


definition page_of :: "product list \<Rightarrow> bool \<Rightarrow> page" where
  "page_of ps nxt = \<lparr>edges = map (\<lambda>p. \<lparr>cursor = product_id p, node = p\<rparr>) ps, hasNextPage = nxt\<rparr>"

definition taken :: user_error where
  "taken = \<lparr>field = [''options''], message = ''Option already exists''\<rparr>"

definition locked :: user_error where
  "locked = \<lparr>field = [''productId''], message = ''Product is locked''\<rparr>"

text \<open>
  The runtime of the examples. Their names and search terms are ASCII texts, on which
  \<^verbatim>\<open>toLowerCase\<close> lowers \<^verbatim>\<open>A\<close>..\<^verbatim>\<open>Z\<close> and \<^verbatim>\<open>trim\<close> strips TAB, LF, VT, FF, CR and
  SPACE from both ends. \<^verbatim>\<open>JSON.parse\<close> is given on the three texts the examples use,
  \<^verbatim>\<open>[]\<close>, \<^verbatim>\<open>5\<close> and \<^verbatim>\<open>["Red"]\<close> (the text \<open>red_text\<close>); the fourth text of the
  examples, \<^verbatim>\<open>[\<close>, is no JSON.
\<close>

definition ascii_space :: "char \<Rightarrow> bool" where
  "ascii_space c = ((of_char c :: nat) \<in> {9, 10, 11, 12, 13, 32})"

definition ascii_trim :: "string \<Rightarrow> string" where
  "ascii_trim s = rev (dropWhile ascii_space (rev (dropWhile ascii_space s)))"

definition red_text :: string where
  "red_text = [CHR ''['', CHR 0x22, CHR ''R'', CHR ''e'', CHR ''d'', CHR 0x22, CHR '']'']"

definition JSON_parse_sample :: "string \<Rightarrow> json option" where
  "JSON_parse_sample s =
     (if s = ''[]'' then Some (JArray [])
      else if s = ''5'' then Some (JNumber 5)
      else if s = red_text then Some (JArray [JString ''Red''])
      else None)"

definition sample_runtime :: builtins where
  "sample_runtime =
     \<lparr>toLowerCase = ascii_lowercase, trim = ascii_trim, JSON_parse = JSON_parse_sample\<rparr>"

text \<open>
  A remote that replays a list of pages for the listing requests and a list of
  user-error lists for the mutations, and reports no error once that list is used up.
\<close>

definition shop :: "(page list \<times> user_error list list) remote" where
  "shop s req =
     (if is_listing req
      then (case fst s of
              [] \<Rightarrow> (Thrown, s)
            | pg # pgs \<Rightarrow> (ProductsData pg, (pgs, snd s)))
      else (case snd s of
              [] \<Rightarrow> (UserErrors [], s)
            | ue # ues \<Rightarrow> (UserErrors ue, (fst s, ues))))"

text \<open>
  A remote that holds the catalogue, lists it in one page, and refuses every mutation:
  it reports that the product is locked and leaves the catalogue as it is.
\<close>

definition refusing :: "product list remote" where
  "refusing s req =
     (if is_listing req then (ProductsData (page_of s False), s) else (UserErrors [locked], s))"

section \<open>Properties\<close>

subsection \<open>Lower-casing of ASCII text, and the occurrence of one string in another\<close>

lemma of_char_ascii_lower:
  "(of_char (ascii_lower c) :: nat) = (if 65 \<le> (of_char c :: nat) \<and> (of_char c :: nat) \<le> 90 then of_char c + 32 else of_char c)"
  by (simp add: ascii_lower_def Let_def)

lemma char_eq_code: "c = d \<longleftrightarrow> (of_char c :: nat) = of_char d"
  by simp

lemma ascii_lower_eq_iff: "ascii_lower c = ascii_lower d \<longleftrightarrow> same_letter c d"
proof -
  have "ascii_lower c = ascii_lower d \<longleftrightarrow> (of_char (ascii_lower c) :: nat) = of_char (ascii_lower d)"
    by simp
  also have "\<dots> \<longleftrightarrow> same_letter c d"
    unfolding of_char_ascii_lower same_letter_def Let_def char_eq_code [of c d]
    by auto
  finally show ?thesis .
qed

lemma ascii_lowercase_eq_iff: "ascii_lowercase s = ascii_lowercase t \<longleftrightarrow> ascii_ci_equal s t"
  unfolding ascii_ci_equal_def ascii_lowercase_def
proof (induction s arbitrary: t)
  case Nil
  then show ?case by auto
next
  case (Cons c s)
  then show ?case by (cases t) (auto simp: ascii_lower_eq_iff)
qed

lemma string_includes_iff:
  "string_includes s t \<longleftrightarrow> (\<exists>i \<in> {0..length s}. take (length t) (drop i s) = t)"
proof (induction s)
  case Nil
  then show ?case by auto
next
  case (Cons c s)
  have p: "prefix t (c # s) \<longleftrightarrow> take (length t) (c # s) = t"
    by (metis prefix_def append_eq_conv_conj append_take_drop_id)
  have "(\<exists>i \<in> {0..length (c # s)}. take (length t) (drop i (c # s)) = t)
        \<longleftrightarrow> take (length t) (c # s) = t \<or> (\<exists>i \<in> {0..length s}. take (length t) (drop i s) = t)"
    (is "?L \<longleftrightarrow> ?A \<or> ?B")
  proof
    assume ?L
    then obtain i where i: "i \<le> length (c # s)" "take (length t) (drop i (c # s)) = t" by auto
    show "?A \<or> ?B"
    proof (cases i)
      case 0
      with i show ?thesis by simp
    next
      case (Suc j)
      with i have "j \<in> {0..length s}" "take (length t) (drop j s) = t" by auto
      then show ?thesis by blast
    qed
  next
    assume "?A \<or> ?B"
    then show ?L
    proof
      assume ?A
      then have "take (length t) (drop 0 (c # s)) = t" by simp
      then show ?L by (metis atLeastAtMost_iff le0)
    next
      assume ?B
      then obtain j where "j \<le> length s" "take (length t) (drop j s) = t" by auto
      then have "Suc j \<in> {0..length (c # s)}" "take (length t) (drop (Suc j) (c # s)) = t" by auto
      then show ?L by blast
    qed
  qed
  with Cons p show ?case by simp
qed

lemma includes_ascii_lower_iff:
  "string_includes (ascii_lowercase s) (ascii_lowercase t) \<longleftrightarrow> ascii_ci_contains s t"
proof -
  have "take (length t) (drop i (ascii_lowercase s)) = ascii_lowercase t
        \<longleftrightarrow> ascii_ci_equal (take (length t) (drop i s)) t" for i
    using ascii_lowercase_eq_iff [of "take (length t) (drop i s)" t]
    by (simp add: ascii_lowercase_def take_map drop_map)
  then show ?thesis
    by (simp add: string_includes_iff ascii_ci_contains_def ascii_lowercase_def)
qed

lemma includes_lower_iff:
  "string_includes (toLowerCase rt s) (toLowerCase rt t) \<longleftrightarrow> ci_contains rt s t"
  by (simp add: string_includes_iff ci_contains_def)

lemma sample_runtime_simps [simp]:
  "toLowerCase sample_runtime = ascii_lowercase"
  "trim sample_runtime = ascii_trim"
  "JSON_parse sample_runtime = JSON_parse_sample"
  by (simp_all add: sample_runtime_def)

subsection \<open>One round of the reader, and the reader on a served sequence of pages\<close>

lemma fetchAll_more:
  assumes "g (state a) (AllProducts 250 after) = (ProductsData p, s')"
    and "hasNextPage p" and "edges p \<noteq> []"
  shows "fetchAll g all after a =
         fetchAll g (all @ map node (edges p)) (Some (cursor (last (edges p)))) (fetched a after p s')"
  using assms
  by (subst fetchAll.simps) (simp add: graphql_def fetched_def split: list.splits)

lemma fetchAll_empty:
  assumes "g (state a) (AllProducts 250 after) = (ProductsData p, s')"
    and "hasNextPage p" and "edges p = []"
  shows "fetchAll g all after a = Some (Inl TypeError, fetched a after p s')"
  using assms
  by (subst fetchAll.simps) (simp add: graphql_def fetched_def)

lemma fetchAll_last:
  assumes "g (state a) (AllProducts 250 after) = (ProductsData p, s')"
    and "\<not> hasNextPage p"
  shows "fetchAll g all after a = Some (Inr (all @ map node (edges p)), fetched a after p s')"
  using assms
  by (subst fetchAll.simps) (simp add: graphql_def fetched_def)

lemma fetchAll_serves:
  assumes "serves g (state a) after ps" and "ps \<noteq> []"
    and "\<forall>p \<in> set (butlast ps). hasNextPage p \<and> edges p \<noteq> []"
    and "\<not> hasNextPage (last ps)"
  shows "\<exists>a'. fetchAll g all after a = Some (Inr (all @ concat (map (\<lambda>p. map node (edges p)) ps)), a')
            \<and> map snd (calls a') = map snd (calls a) @ map ProductsData ps"
  using assms
proof (induction ps arbitrary: a all after)
  case Nil
  then show ?case by simp
next
  case (Cons p ps)
  obtain s' where g: "g (state a) (AllProducts 250 after) = (ProductsData p, s')"
    and rest: "serves g s' (Some (cursor (last (edges p)))) ps"
    using Cons.prems(1) by (auto split: prod.splits)
  show ?case
  proof (cases "ps = []")
    case True
    with Cons.prems have "\<not> hasNextPage p" by simp
    from fetchAll_last [where g = g and a = a, OF g this] True show ?thesis
      by (simp add: fetched_def)
  next
    case False
    with Cons.prems have p: "hasNextPage p" "edges p \<noteq> []" by auto
    let ?a = "fetched a after p s'"
    have "serves g (state ?a) (Some (cursor (last (edges p)))) ps"
      using rest by (simp add: fetched_def)
    moreover have "\<forall>q \<in> set (butlast ps). hasNextPage q \<and> edges q \<noteq> []"
      using Cons.prems(3) False by auto
    moreover have "\<not> hasNextPage (last ps)"
      using Cons.prems(4) False by simp
    ultimately obtain a' where
      a': "fetchAll g (all @ map node (edges p)) (Some (cursor (last (edges p)))) ?a
             = Some (Inr ((all @ map node (edges p)) @ concat (map (\<lambda>p. map node (edges p)) ps)), a')"
          "map snd (calls a') = map snd (calls ?a) @ map ProductsData ps"
      using Cons.IH [OF _ False, of ?a "Some (cursor (last (edges p)))" "all @ map node (edges p)"]
      by blast
    from fetchAll_more [where g = g and a = a, OF g p] a' show ?thesis
      by (simp add: fetched_def)
  qed
qed

lemma fetchAll_serves_empty:
  assumes "serves g (state a) after (ps @ [p])"
    and "\<forall>q \<in> set ps. hasNextPage q \<and> edges q \<noteq> []"
    and "hasNextPage p" and "edges p = []"
  shows "\<exists>a'. fetchAll g all after a = Some (Inl TypeError, a')
            \<and> map snd (calls a') = map snd (calls a) @ map ProductsData (ps @ [p])"
  using assms
proof (induction ps arbitrary: a all after)
  case Nil
  then obtain s' where g: "g (state a) (AllProducts 250 after) = (ProductsData p, s')"
    by (auto split: prod.splits)
  from fetchAll_empty [where g = g and a = a, OF g Nil.prems(3,4)] show ?case
    by (simp add: fetched_def)
next
  case (Cons q ps)
  obtain s' where g: "g (state a) (AllProducts 250 after) = (ProductsData q, s')"
    and rest: "serves g s' (Some (cursor (last (edges q)))) (ps @ [p])"
    using Cons.prems(1) by (auto split: prod.splits)
  from Cons.prems have q: "hasNextPage q" "edges q \<noteq> []" by auto
  let ?a = "fetched a after q s'"
  have "serves g (state ?a) (Some (cursor (last (edges q)))) (ps @ [p])"
    using rest by (simp add: fetched_def)
  moreover have "\<forall>r \<in> set ps. hasNextPage r \<and> edges r \<noteq> []"
    using Cons.prems(2) by auto
  ultimately obtain a' where
    a': "fetchAll g (all @ map node (edges q)) (Some (cursor (last (edges q)))) ?a
           = Some (Inl TypeError, a')"
        "map snd (calls a') = map snd (calls ?a) @ map ProductsData (ps @ [p])"
    using Cons.IH [of ?a "Some (cursor (last (edges q)))" "all @ map node (edges q)"] Cons.prems(3,4)
    by blast
  from fetchAll_more [where g = g and a = a, OF g q] a' show ?case
    by (simp add: fetched_def)
qed

subsection \<open>The calls of the two mutation loops\<close>

lemma add_product_array:
  "add_product g N (JArray vs) p errs a =
     (case g (state a) (create_request N vs p) of
        (UserErrors ue, s') \<Rightarrow>
          (Inr (errs @ map message ue),
           \<lparr>state = s', calls = calls a @ [(create_request N vs p, UserErrors ue)]\<rparr>)
      | (ProductsData pg, s') \<Rightarrow>
          (Inl TypeError,
           \<lparr>state = s', calls = calls a @ [(create_request N vs p, ProductsData pg)]\<rparr>)
      | (Thrown, s') \<Rightarrow>
          (Inl RemoteError, \<lparr>state = s', calls = calls a @ [(create_request N vs p, Thrown)]\<rparr>))"
  by (simp add: add_product_def graphql_def create_request_def split: prod.splits response.splits)

lemma add_product_calls:
  "\<exists>resp. calls (snd (add_product g N (JArray vs) p errs a)) = calls a @ [(create_request N vs p, resp)]
     \<and> (\<forall>errs'. fst (add_product g N (JArray vs) p errs a) = Inr errs'
           \<longrightarrow> errs' = errs @ messages (create_request N vs p, resp))"
  by (simp add: add_product_array messages_def split: prod.splits response.splits)

lemma add_product_not_array:
  "\<forall>vs. v \<noteq> JArray vs \<Longrightarrow> add_product g N v p errs a = (Inl TypeError, a)"
  by (cases v) (simp_all add: add_product_def)

lemma add_loop_calls:
  "\<exists>new. calls (snd (add_loop g N (JArray vs) ps errs a)) = calls a @ new
     \<and> map fst new = map (create_request N vs) (take (length new) ps)
     \<and> (\<forall>errs'. fst (add_loop g N (JArray vs) ps errs a) = Inr errs'
           \<longrightarrow> length new = length ps \<and> errs' = errs @ concat (map messages new))"
proof (induction ps arbitrary: errs a)
  case Nil
  then show ?case by simp
next
  case (Cons p ps)
  obtain r a1 where r: "add_product g N (JArray vs) p errs a = (r, a1)"
    by (cases "add_product g N (JArray vs) p errs a")
  from add_product_calls [of g N vs p errs a] r obtain resp where
    c: "calls a1 = calls a @ [(create_request N vs p, resp)]"
    and e: "\<forall>errs'. r = Inr errs' \<longrightarrow> errs' = errs @ messages (create_request N vs p, resp)"
    by auto
  show ?case
  proof (cases r)
    case (Inl x)
    with r c show ?thesis
      by (intro exI [of _ "[(create_request N vs p, resp)]"]) simp
  next
    case (Inr e1)
    from Cons.IH [of e1 a1] obtain new where
      n: "calls (snd (add_loop g N (JArray vs) ps e1 a1)) = calls a1 @ new"
         "map fst new = map (create_request N vs) (take (length new) ps)"
         "\<forall>errs'. fst (add_loop g N (JArray vs) ps e1 a1) = Inr errs'
             \<longrightarrow> length new = length ps \<and> errs' = e1 @ concat (map messages new)"
      by blast
    from Inr e have e1: "e1 = errs @ messages (create_request N vs p, resp)" by simp
    show ?thesis
      using r Inr c n e1
      by (intro exI [of _ "(create_request N vs p, resp) # new"]) simp
  qed
qed

lemma delete_option_eq:
  "delete_option g p opt errs a =
     (case g (state a) (delete_request p opt) of
        (UserErrors ue, s') \<Rightarrow>
          (Inr (errs @ map message ue),
           \<lparr>state = s', calls = calls a @ [(delete_request p opt, UserErrors ue)]\<rparr>)
      | (ProductsData pg, s') \<Rightarrow>
          (Inl TypeError, \<lparr>state = s', calls = calls a @ [(delete_request p opt, ProductsData pg)]\<rparr>)
      | (Thrown, s') \<Rightarrow>
          (Inl RemoteError, \<lparr>state = s', calls = calls a @ [(delete_request p opt, Thrown)]\<rparr>))"
  by (simp add: delete_option_def graphql_def delete_request_def split: prod.splits response.splits)

lemma delete_option_calls:
  "\<exists>resp. calls (snd (delete_option g p opt errs a)) = calls a @ [(delete_request p opt, resp)]
     \<and> (\<forall>errs'. fst (delete_option g p opt errs a) = Inr errs'
           \<longrightarrow> errs' = errs @ messages (delete_request p opt, resp))"
  by (simp add: delete_option_eq messages_def split: prod.splits response.splits)

lemma remove_product_None:
  "find_option rt S p = None \<Longrightarrow> remove_product rt g S p errs a = (Inr errs, a)"
  by (simp add: remove_product_def)

lemma remove_product_single:
  "find_option rt S p = Some opt \<Longrightarrow> \<not> 1 < length (optionValues opt) \<Longrightarrow>
   remove_product rt g S p errs a = delete_option g p opt errs a"
  by (simp add: remove_product_def)

lemma remove_product_many:
  "find_option rt S p = Some opt \<Longrightarrow> 1 < length (optionValues opt) \<Longrightarrow>
   remove_product rt g S p errs a =
     (case g (state a) (update_request p opt) of
        (UserErrors ue, s') \<Rightarrow>
          if ue \<noteq> []
          then (Inr (errs @ map message ue),
                \<lparr>state = s', calls = calls a @ [(update_request p opt, UserErrors ue)]\<rparr>)
          else delete_option g p opt errs
                 \<lparr>state = s', calls = calls a @ [(update_request p opt, UserErrors ue)]\<rparr>
      | (ProductsData pg, s') \<Rightarrow>
          (Inl TypeError, \<lparr>state = s', calls = calls a @ [(update_request p opt, ProductsData pg)]\<rparr>)
      | (Thrown, s') \<Rightarrow>
          (Inl RemoteError, \<lparr>state = s', calls = calls a @ [(update_request p opt, Thrown)]\<rparr>))"
  by (simp add: remove_product_def graphql_def update_request_def drop_Suc Let_def
           split: prod.splits response.splits)

lemma remove_product_calls:
  assumes "find_option rt S p = Some opt"
  shows "\<exists>new. calls (snd (remove_product rt g S p errs a)) = calls a @ new
     \<and> (if 1 < length (optionValues opt)
        then map fst new = [update_request p opt]
           \<or> map fst new = [update_request p opt, delete_request p opt]
        else map fst new = [delete_request p opt])
     \<and> (\<forall>errs'. fst (remove_product rt g S p errs a) = Inr errs'
           \<longrightarrow> errs' = errs @ concat (map messages new))"
proof (cases "1 < length (optionValues opt)")
  case False
  with delete_option_calls [of g p opt errs a] assms show ?thesis
    by (auto simp: remove_product_single)
next
  case True
  obtain r s' where g: "g (state a) (update_request p opt) = (r, s')"
    by (cases "g (state a) (update_request p opt)")
  let ?a = "\<lparr>state = s', calls = calls a @ [(update_request p opt, r)]\<rparr>"
  show ?thesis
  proof (cases "r = UserErrors []")
    case False
    then show ?thesis
      using True assms g
      by (intro exI [of _ "[(update_request p opt, r)]"])
         (auto simp: remove_product_many messages_def split: response.splits)
  next
    case r: True
    from delete_option_calls [of g p opt errs ?a] obtain resp where
      d: "calls (snd (delete_option g p opt errs ?a)) = calls ?a @ [(delete_request p opt, resp)]"
         "\<forall>errs'. fst (delete_option g p opt errs ?a) = Inr errs'
             \<longrightarrow> errs' = errs @ messages (delete_request p opt, resp)"
      by blast
    have "remove_product rt g S p errs a = delete_option g p opt errs ?a"
      using True assms g r by (simp add: remove_product_many)
    with d r True show ?thesis
      by (intro exI [of _ "[(update_request p opt, r), (delete_request p opt, resp)]"])
         (simp add: messages_def)
  qed
qed


subsection \<open>Small facts about the call log\<close>

lemma issued_append: "calls a' = calls a @ new \<Longrightarrow> issued a a' = new"
  by (simp add: issued_def)

lemma length_concat_edges:
  "length (concat (map (\<lambda>p. map node (edges p)) ps)) = sum_list (map (\<lambda>p. length (edges p)) ps)"
  by (induction ps) simp_all

subsection \<open>The calls of the reader and of the whole loops\<close>

lemma fetchAll_calls_snd:
  assumes "fetchAll g all after a = Some y"
  shows "\<exists>new. calls (snd y) = calls a @ new \<and> (\<forall>c \<in> set new. is_listing (fst c))"
proof (rule fetchAll.raw_induct
         [where P = "\<lambda>g all after a y. \<exists>new. calls (snd y) = calls a @ new
                                           \<and> (\<forall>c \<in> set new. is_listing (fst c))",
          OF _ assms], goal_cases)
  case (1 fetch g all after a y)
  obtain resp s' where g: "g (state a) (AllProducts 250 after) = (resp, s')"
    by (cases "g (state a) (AllProducts 250 after)")
  let ?a1 = "\<lparr>state = s', calls = calls a @ [(AllProducts 250 after, resp)]\<rparr>"
  show ?case
  proof (cases "\<exists>p. resp = ProductsData p \<and> hasNextPage p \<and> edges p \<noteq> []")
    case True
    then obtain p where p: "resp = ProductsData p" "hasNextPage p" "edges p \<noteq> []" by blast
    with 1(2) g have "fetch g (all @ map node (edges p)) (Some (cursor (last (edges p)))) ?a1 = Some y"
      by (simp add: graphql_def split: list.splits)
    from 1(1) [OF this] obtain new where
      "calls (snd y) = calls ?a1 @ new" "\<forall>c \<in> set new. is_listing (fst c)" by blast
    then show ?thesis
      by (intro exI [of _ "(AllProducts 250 after, resp) # new"]) simp
  next
    case False
    with 1(2) g have "snd y = ?a1"
      by (auto simp: graphql_def Let_def split: response.splits if_splits list.splits)
    then show ?thesis
      by (intro exI [of _ "[(AllProducts 250 after, resp)]"]) simp
  qed
qed

lemma fetchAll_calls:
  "fetchAll g all after a = Some (r, a')
   \<Longrightarrow> \<exists>new. calls a' = calls a @ new \<and> (\<forall>c \<in> set new. is_listing (fst c))"
  using fetchAll_calls_snd [of g all after a "(r, a')"] by simp

lemma remove_loop_calls:
  "\<exists>new. calls (snd (remove_loop rt g S ps errs a)) = calls a @ new
     \<and> (\<forall>c \<in> set new. \<exists>p \<in> set ps. \<exists>opt. find_option rt S p = Some opt
            \<and> (fst c = update_request p opt \<and> 1 < length (optionValues opt)
                \<or> fst c = delete_request p opt))
     \<and> (\<forall>errs'. fst (remove_loop rt g S ps errs a) = Inr errs'
           \<longrightarrow> errs' = errs @ concat (map messages new)
             \<and> (\<forall>p \<in> set ps. find_option rt S p \<noteq> None
                   \<longrightarrow> (\<exists>c \<in> set new. request_product (fst c) = Some (product_id p))))"
proof (induction ps arbitrary: errs a)
  case Nil
  then show ?case by simp
next
  case (Cons p ps)
  obtain r a1 where r: "remove_product rt g S p errs a = (r, a1)"
    by (cases "remove_product rt g S p errs a")
  have step: "\<exists>new1. calls a1 = calls a @ new1
      \<and> (\<forall>c \<in> set new1. \<exists>opt. find_option rt S p = Some opt
            \<and> (fst c = update_request p opt \<and> 1 < length (optionValues opt)
                \<or> fst c = delete_request p opt))
      \<and> (\<forall>e1. r = Inr e1 \<longrightarrow> e1 = errs @ concat (map messages new1))
      \<and> (find_option rt S p \<noteq> None
            \<longrightarrow> (\<exists>c \<in> set new1. request_product (fst c) = Some (product_id p)))"
  proof (cases "find_option rt S p")
    case None
    with r have "r = Inr errs" "a1 = a" by (simp_all add: remove_product_None)
    with None show ?thesis by simp
  next
    case (Some opt)
    from remove_product_calls [OF Some, of g errs a] r obtain new1 where
      n: "calls a1 = calls a @ new1"
      and m: "if 1 < length (optionValues opt)
              then map fst new1 = [update_request p opt]
                 \<or> map fst new1 = [update_request p opt, delete_request p opt]
              else map fst new1 = [delete_request p opt]"
      and e: "\<forall>e1. r = Inr e1 \<longrightarrow> e1 = errs @ concat (map messages new1)"
      by auto
    have "\<forall>c \<in> set new1. fst c = update_request p opt \<and> 1 < length (optionValues opt)
                \<or> fst c = delete_request p opt"
    proof
      fix c assume "c \<in> set new1"
      then have "fst c \<in> set (map fst new1)" by simp
      with m show "fst c = update_request p opt \<and> 1 < length (optionValues opt)
                \<or> fst c = delete_request p opt"
        by (auto split: if_splits)
    qed
    moreover have "\<exists>c \<in> set new1. request_product (fst c) = Some (product_id p)"
    proof -
      from m have "new1 \<noteq> []" by (auto split: if_splits)
      then obtain c where c: "c \<in> set new1" by (cases new1) auto
      then have "fst c \<in> set (map fst new1)" by simp
      with m have "fst c = update_request p opt \<or> fst c = delete_request p opt"
        by (auto split: if_splits)
      then have "request_product (fst c) = Some (product_id p)"
        by (auto simp: update_request_def delete_request_def)
      with c show ?thesis by blast
    qed
    ultimately show ?thesis using n e Some by blast
  qed
  then obtain new1 where
    n1: "calls a1 = calls a @ new1"
    and s1: "\<forall>c \<in> set new1. \<exists>opt. find_option rt S p = Some opt
            \<and> (fst c = update_request p opt \<and> 1 < length (optionValues opt)
                \<or> fst c = delete_request p opt)"
    and e1: "\<forall>e1. r = Inr e1 \<longrightarrow> e1 = errs @ concat (map messages new1)"
    and p1: "find_option rt S p \<noteq> None
            \<longrightarrow> (\<exists>c \<in> set new1. request_product (fst c) = Some (product_id p))"
    by blast
  show ?case
  proof (cases r)
    case (Inl x)
    with r n1 s1 show ?thesis
      by (intro exI [of _ new1]) simp
  next
    case (Inr e)
    from Cons.IH [of e a1] obtain new2 where
      n2: "calls (snd (remove_loop rt g S ps e a1)) = calls a1 @ new2"
      and s2: "\<forall>c \<in> set new2. \<exists>p \<in> set ps. \<exists>opt. find_option rt S p = Some opt
            \<and> (fst c = update_request p opt \<and> 1 < length (optionValues opt)
                \<or> fst c = delete_request p opt)"
      and e2: "\<forall>errs'. fst (remove_loop rt g S ps e a1) = Inr errs'
           \<longrightarrow> errs' = e @ concat (map messages new2)
             \<and> (\<forall>p \<in> set ps. find_option rt S p \<noteq> None
                   \<longrightarrow> (\<exists>c \<in> set new2. request_product (fst c) = Some (product_id p)))"
      by blast
    have loop: "remove_loop rt g S (p # ps) errs a = remove_loop rt g S ps e a1"
      using r Inr by simp
    have e: "e = errs @ concat (map messages new1)" using e1 Inr by simp
    have A: "calls (snd (remove_loop rt g S (p # ps) errs a)) = calls a @ (new1 @ new2)"
      using loop n1 n2 by simp
    have B: "\<forall>c \<in> set (new1 @ new2). \<exists>q \<in> set (p # ps). \<exists>opt. find_option rt S q = Some opt
            \<and> (fst c = update_request q opt \<and> 1 < length (optionValues opt)
                \<or> fst c = delete_request q opt)"
      using s1 s2 by auto
    have C: "\<forall>errs'. fst (remove_loop rt g S (p # ps) errs a) = Inr errs'
           \<longrightarrow> errs' = errs @ concat (map messages (new1 @ new2))
             \<and> (\<forall>q \<in> set (p # ps). find_option rt S q \<noteq> None
                   \<longrightarrow> (\<exists>c \<in> set (new1 @ new2). request_product (fst c) = Some (product_id q)))"
    proof (intro allI impI conjI ballI)
      fix errs' assume "fst (remove_loop rt g S (p # ps) errs a) = Inr errs'"
      with loop e2 e show "errs' = errs @ concat (map messages (new1 @ new2))" by simp
    next
      fix errs' q
      assume r': "fst (remove_loop rt g S (p # ps) errs a) = Inr errs'"
        and q: "q \<in> set (p # ps)" "find_option rt S q \<noteq> None"
      show "\<exists>c \<in> set (new1 @ new2). request_product (fst c) = Some (product_id q)"
      proof (cases "q = p")
        case True
        with p1 q show ?thesis by auto
      next
        case False
        with q have "q \<in> set ps" by simp
        with e2 r' loop q(2) have "\<exists>c \<in> set new2. request_product (fst c) = Some (product_id q)"
          by simp
        then show ?thesis by auto
      qed
    qed
    from A B C show ?thesis by blast
  qed
qed

lemma add_loop_no_update:
  "\<exists>new. calls (snd (add_loop g N v ps errs a)) = calls a @ new
     \<and> (\<forall>c \<in> set new. \<not> is_update (fst c) \<and> \<not> is_listing (fst c))"
proof (cases "\<exists>vs. v = JArray vs")
  case True
  then obtain vs where v: "v = JArray vs" by blast
  from add_loop_calls [of g N vs ps errs a] obtain new where
    n: "calls (snd (add_loop g N (JArray vs) ps errs a)) = calls a @ new"
       "map fst new = map (create_request N vs) (take (length new) ps)"
    by blast
  have "\<forall>c \<in> set new. \<not> is_update (fst c) \<and> \<not> is_listing (fst c)"
  proof
    fix c assume "c \<in> set new"
    then have "fst c \<in> set (map fst new)" by simp
    with n(2) show "\<not> is_update (fst c) \<and> \<not> is_listing (fst c)"
      by (auto simp: create_request_def)
  qed
  with n(1) v show ?thesis by blast
next
  case False
  then have "add_loop g N v ps errs a = (if ps = [] then (Inr errs, a) else (Inl TypeError, a))"
    by (cases ps) (simp_all add: add_product_not_array)
  then show ?thesis by simp
qed

subsection \<open>The option the remove route picks\<close>

lemma find_first:
  "find P xs = Some x \<Longrightarrow> P x \<and> (\<exists>pre post. xs = pre @ x # post \<and> (\<forall>y \<in> set pre. \<not> P y))"
proof (induction xs)
  case Nil
  then show ?case by simp
next
  case (Cons z xs)
  show ?case
  proof (cases "P z")
    case True
    with Cons.prems have "x = z" by simp
    with True have "P x" "z # xs = [] @ x # xs" "\<forall>y \<in> set []. \<not> P y" by simp_all
    then show ?thesis by blast
  next
    case False
    with Cons obtain pre post where "P x" "xs = pre @ x # post" "\<forall>y \<in> set pre. \<not> P y"
      by auto
    with False have "z # xs = (z # pre) @ x # post" "\<forall>y \<in> set (z # pre). \<not> P y" by simp_all
    with \<open>P x\<close> show ?thesis by blast
  qed
qed

lemma find_option_None_iff:
  "find_option rt S p = None \<longleftrightarrow> \<not> (\<exists>opt \<in> set (product_options p). ci_contains rt (option_name opt) S)"
  by (auto simp: find_option_def find_None_iff includes_lower_iff)

lemma find_option_first:
  assumes "find_option rt S p = Some opt"
  shows "ci_contains rt (option_name opt) S"
    and "\<exists>pre post. product_options p = pre @ opt # post
            \<and> (\<forall>o' \<in> set pre. \<not> ci_contains rt (option_name o') S)"
  using find_first [OF assms [unfolded find_option_def]]
  by (simp_all add: includes_lower_iff)

lemma remove_product_requests:
  assumes "find_option rt S p = Some opt"
  shows "\<exists>new. calls (snd (remove_product rt g S p errs a)) = calls a @ new \<and> new \<noteq> []
           \<and> (\<forall>c \<in> set new. fst c = update_request p opt \<or> fst c = delete_request p opt)"
proof -
  from remove_product_calls [OF assms, of g errs a] obtain new where
    n: "calls (snd (remove_product rt g S p errs a)) = calls a @ new"
    and m: "map fst new = [update_request p opt]
          \<or> map fst new = [update_request p opt, delete_request p opt]
          \<or> map fst new = [delete_request p opt]"
    by (auto split: if_splits)
  from m have "new \<noteq> []" by auto
  moreover from m have "set (map fst new) \<subseteq> {update_request p opt, delete_request p opt}"
    by auto
  then have "\<forall>c \<in> set new. fst c = update_request p opt \<or> fst c = delete_request p opt"
    by auto
  ultimately show ?thesis using n by blast
qed


subsection \<open>Evaluations on the sample data\<close>

lemma lows:
  "ascii_lowercase ''PACK'' = ''pack''"
  "ascii_lowercase ''Pack weight'' = ''pack weight''"
  "ascii_lowercase ''Pack size'' = ''pack size''"
  "ascii_lowercase ''Title'' = ''title''"
  "ascii_lowercase ''Color'' = ''color''"
  by code_simp+

lemma tent_match: "find_option sample_runtime ''PACK'' tent = Some pack_weight"
  by (simp add: find_option_def tent_def title_option_def pack_weight_def lows)

lemma mug_match: "find_option sample_runtime ''PACK'' mug = None"
  by (simp add: find_option_def mug_def title_option_def pack_weight_def lows)


subsection \<open>The actions, by the outcome of the validation\<close>

lemma action_add_invalid:
  assumes "form_name rt frm = [] \<or> form_json frm = [] \<or> JSON_parse rt (form_json frm) = None"
  shows "\<exists>msg. action_add rt g frm a = Some (Inr (failure msg), a)"
  using assms by (auto simp: action_add_def Let_def)

lemma action_add_valid:
  assumes "form_name rt frm \<noteq> []" and "form_json frm \<noteq> []"
    and "JSON_parse rt (form_json frm) = Some vals"
  shows "action_add rt g frm a =
     (case fetchAll g [] None a of
        None \<Rightarrow> None
      | Some (Inl e, a') \<Rightarrow> Some (Inl e, a')
      | Some (Inr all, a') \<Rightarrow>
          (case add_loop g (form_name rt frm) vals (toAdd rt (form_name rt frm) all) [] a' of
             (Inl e, a'') \<Rightarrow> Some (Inl e, a'')
           | (Inr errors, a'') \<Rightarrow>
               Some (Inr (if errors = []
                          then \<lparr>success = True, error = None,
                                addedCount = Some (length (toAdd rt (form_name rt frm) all))\<rparr>
                          else failure (join ''; '' errors)), a'')))"
  using assms
  by (simp add: action_add_def Let_def split: option.splits prod.splits sum.splits)

lemma action_remove_valid:
  assumes "form_name rt frm \<noteq> []"
  shows "action_remove rt g frm a =
     (case fetchAll g [] None a of
        None \<Rightarrow> None
      | Some (Inl e, a') \<Rightarrow> Some (Inl e, a')
      | Some (Inr all, a') \<Rightarrow>
          (case remove_loop rt g (form_name rt frm) all [] a' of
             (Inl e, a'') \<Rightarrow> Some (Inl e, a'')
           | (Inr errors, a'') \<Rightarrow>
               Some (Inr (if errors = []
                          then \<lparr>success = True, error = None, addedCount = None\<rparr>
                          else failure (join ''; '' errors)), a'')))"
  using assms
  by (simp add: action_remove_def Let_def split: option.splits prod.splits sum.splits)

lemma action_remove_invalid:
  "form_name rt frm = [] \<Longrightarrow>
   action_remove rt g frm a = Some (Inr (failure ''Please enter an option name.''), a)"
  by (simp add: action_remove_def)

lemma trims:
  "ascii_trim ''   '' = []"
  "ascii_trim ''Size'' = ''Size''"
  "ascii_trim '' Title '' = ''Title''"
  "ascii_trim ''PACK'' = ''PACK''"
  by code_simp+

lemma add_loop_not_array:
  "\<forall>vs. v \<noteq> JArray vs \<Longrightarrow>
   add_loop g N v ps errs a = (if ps = [] then (Inr errs, a) else (Inl TypeError, a))"
  by (cases ps) (simp_all add: add_product_not_array)

lemma sample_fetch:
  "fetchAll scripted [] None \<lparr>state = ProductsData (page_of ps False) # rs, calls = []\<rparr>
     = Some (Inr ps, \<lparr>state = rs,
               calls = [(AllProducts 250 None, ProductsData (page_of ps False))]\<rparr>)"
  by (simp add: fetchAll.simps graphql_def page_of_def comp_def)

lemma toAdd_size: "toAdd sample_runtime ''Size'' [mug] = [mug]"
proof -
  have "ascii_lowercase ''Size'' = ''size''" by code_simp
  then show ?thesis by (simp add: toAdd_def mug_def title_option_def lows)
qed

lemma red_parse: "JSON_parse_sample red_text = Some (JArray [JString ''Red''])"
  by (simp add: JSON_parse_sample_def red_text_def)

subsection \<open>Counting the reported errors\<close>





lemma add_loop_issued:
  assumes "add_loop g N (JArray vs) ps errs a = (Inr errs', a')"
  shows "map fst (issued a a') = map (create_request N vs) ps"
    and "errs' = errs @ concat (map messages (issued a a'))"
proof -
  from add_loop_calls [of g N vs ps errs a] obtain new where
    c: "calls (snd (add_loop g N (JArray vs) ps errs a)) = calls a @ new"
    and m: "map fst new = map (create_request N vs) (take (length new) ps)"
    and e: "\<forall>errs'. fst (add_loop g N (JArray vs) ps errs a) = Inr errs'
           \<longrightarrow> length new = length ps \<and> errs' = errs @ concat (map messages new)"
    by blast
  from c assms have "calls a' = calls a @ new" by simp
  moreover note m
  moreover from e assms have "length new = length ps" "errs' = errs @ concat (map messages new)"
    by simp_all
  ultimately have
    n: "calls a' = calls a @ new" "map fst new = map (create_request N vs) (take (length new) ps)"
       "length new = length ps" "errs' = errs @ concat (map messages new)"
    by blast+
  from n(1) have i: "issued a a' = new" by (rule issued_append)
  from n(2,3) i show "map fst (issued a a') = map (create_request N vs) ps" by simp
  from n(4) i show "errs' = errs @ concat (map messages (issued a a'))" by simp
qed


subsection \<open>Update requests in the call log\<close>

lemma find_option_mem: "find_option rt S p = Some opt \<Longrightarrow> opt \<in> set (product_options p)"
  using find_option_first(2) [of rt S p opt] by auto

lemma remove_product_update_first:
  assumes "find_option rt S p = Some opt" and "1 < length (optionValues opt)"
  shows "\<exists>resp rest. issued a (snd (remove_product rt g S p errs a)) = (update_request p opt, resp) # rest
            \<and> (\<forall>c \<in> set rest. \<not> is_update (fst c))"
proof -
  from remove_product_calls [OF assms(1), of g errs a] assms(2) obtain new where
    n: "calls (snd (remove_product rt g S p errs a)) = calls a @ new"
    and m: "map fst new = [update_request p opt]
          \<or> map fst new = [update_request p opt, delete_request p opt]"
    by auto
  from n have i: "issued a (snd (remove_product rt g S p errs a)) = new" by (rule issued_append)
  from m obtain resp rest where
    r: "new = (update_request p opt, resp) # rest"
    and t: "map fst rest = [] \<or> map fst rest = [delete_request p opt]"
    by (cases new) auto
  have "\<forall>c \<in> set rest. \<not> is_update (fst c)"
  proof
    fix c assume "c \<in> set rest"
    then have "fst c \<in> set (map fst rest)" by simp
    with t show "\<not> is_update (fst c)" by (auto simp: delete_request_def)
  qed
  with i r show ?thesis by blast
qed

lemma listing_not_update: "is_listing r \<Longrightarrow> \<not> is_update r"
  by (cases r) simp_all

lemma action_remove_updates:
  assumes "action_remove rt g frm a = Some (res, a')"
    and "c \<in> set (issued a a')" and "fst c = UpdateOptionValues pid upd del"
  shows "\<exists>all a1. fetchAll g [] None a = Some (Inr all, a1)
           \<and> (\<exists>p \<in> set all. \<exists>opt \<in> set (product_options p).
                  fst c = update_request p opt \<and> length del < length (optionValues opt))"
proof (cases "form_name rt frm = []")
  case True
  with assms(1) have "a' = a" by (simp add: action_remove_invalid)
  with assms(2) show ?thesis by (simp add: issued_def)
next
  case False
  note valid = action_remove_valid [OF False, of g a]
  from assms(1) valid obtain r a1 where f: "fetchAll g [] None a = Some (r, a1)"
    by (cases "fetchAll g [] None a") auto
  from fetchAll_calls [OF f] obtain new1 where
    n1: "calls a1 = calls a @ new1" "\<forall>c \<in> set new1. is_listing (fst c)" by blast
  show ?thesis
  proof (cases r)
    case (Inl e)
    with assms(1) valid f have "a' = a1" by simp
    with n1 have "issued a a' = new1" by (simp add: issued_def)
    with assms(2) n1(2) have "is_listing (fst c)" by simp
    with assms(3) show ?thesis by simp
  next
    case (Inr all)
    let ?S = "form_name rt frm"
    from assms(1) valid f Inr have a': "a' = snd (remove_loop rt g ?S all [] a1)"
      by (auto split: prod.splits sum.splits)
    from remove_loop_calls [of rt g ?S all "[]" a1] a' obtain new2 where
      n2: "calls a' = calls a1 @ new2"
      and s2: "\<forall>c \<in> set new2. \<exists>p \<in> set all. \<exists>opt. find_option rt ?S p = Some opt
            \<and> (fst c = update_request p opt \<and> 1 < length (optionValues opt)
                \<or> fst c = delete_request p opt)"
      by blast
    from n1 n2 have "issued a a' = new1 @ new2" by (simp add: issued_def)
    with assms(2) have "c \<in> set new1 \<or> c \<in> set new2" by simp
    then show ?thesis
    proof
      assume "c \<in> set new1"
      with n1(2) have "is_listing (fst c)" by simp
      with assms(3) show ?thesis by simp
    next
      assume "c \<in> set new2"
      with s2 obtain p opt where
        p: "p \<in> set all" "find_option rt ?S p = Some opt"
        and d: "fst c = update_request p opt \<and> 1 < length (optionValues opt)
                \<or> fst c = delete_request p opt"
        by blast
      from d assms(3) have u: "fst c = update_request p opt" "1 < length (optionValues opt)"
        by (auto simp: delete_request_def)
      from u(1) assms(3) have "del = tl (map value_id (optionValues opt))"
        by (simp add: update_request_def)
      with u(2) have "length del < length (optionValues opt)" by simp
      with p u(1) f Inr find_option_mem [OF p(2)] show ?thesis by blast
    qed
  qed
qed

lemma action_add_no_update:
  assumes "action_add rt g frm a = Some (res, a')" and "c \<in> set (issued a a')"
  shows "\<not> is_update (fst c)"
proof (cases "form_name rt frm = [] \<or> form_json frm = [] \<or> JSON_parse rt (form_json frm) = None")
  case True
  from action_add_invalid [where rt = rt and frm = frm and g = g and a = a, OF True]
    assms(1) have "a' = a" by auto
  with assms(2) show ?thesis by (simp add: issued_def)
next
  case False
  then obtain vals where v: "form_name rt frm \<noteq> []" "form_json frm \<noteq> []"
    "JSON_parse rt (form_json frm) = Some vals" by auto
  note valid = action_add_valid [where rt = rt and frm = frm and g = g and a = a, OF v]
  from assms(1) valid obtain r a1 where f: "fetchAll g [] None a = Some (r, a1)"
    by (cases "fetchAll g [] None a") auto
  from fetchAll_calls [OF f] obtain new1 where
    n1: "calls a1 = calls a @ new1" "\<forall>c \<in> set new1. is_listing (fst c)" by blast
  show ?thesis
  proof (cases r)
    case (Inl e)
    with assms(1) valid f have "a' = a1" by simp
    with n1 have "issued a a' = new1" by (simp add: issued_def)
    with assms(2) n1(2) show ?thesis by (simp add: listing_not_update)
  next
    case (Inr all)
    let ?N = "form_name rt frm"
    from assms(1) valid f Inr have a': "a' = snd (add_loop g ?N vals (toAdd rt ?N all) [] a1)"
      by (auto split: prod.splits sum.splits)
    from add_loop_no_update [of g ?N vals "toAdd rt ?N all" "[]" a1] a' obtain new2 where
      n2: "calls a' = calls a1 @ new2"
      and s2: "\<forall>c \<in> set new2. \<not> is_update (fst c) \<and> \<not> is_listing (fst c)"
      by blast
    from n1 n2 have "issued a a' = new1 @ new2" by (simp add: issued_def)
    with assms(2) have "c \<in> set new1 \<or> c \<in> set new2" by simp
    with n1(2) s2 show ?thesis by (auto simp: listing_not_update)
  qed
qed

lemma loader_no_update:
  assumes "loader g a = Some (res, a')" and "c \<in> set (issued a a')"
  shows "\<not> is_update (fst c)"
proof -
  from assms(1) have "fetchAll g [] None a = Some (res, a')" by (simp add: loader_def)
  from fetchAll_calls [OF this] obtain new where
    "calls a' = calls a @ new" "\<forall>c \<in> set new. is_listing (fst c)" by blast
  with assms(2) show ?thesis by (simp add: issued_def listing_not_update)
qed

subsection \<open>Runs against a remote that answers every mutation\<close>

lemma answers_mutationsD:
  assumes "answers_mutations g" and "\<not> is_listing req"
  obtains ue s' where "g s req = (UserErrors ue, s')"
proof -
  from assms obtain ue where "fst (g s req) = UserErrors ue"
    unfolding answers_mutations_def by blast
  then have "g s req = (UserErrors ue, snd (g s req))"
    by (cases "g s req") simp
  then show ?thesis by (rule that)
qed

lemma add_loop_completes:
  assumes "answers_mutations g"
  shows "\<exists>errs' a'. add_loop g N (JArray vs) ps errs a = (Inr errs', a')"
proof (induction ps arbitrary: errs a)
  case Nil
  then show ?case by simp
next
  case (Cons p ps)
  have "\<not> is_listing (create_request N vs p)" by (simp add: create_request_def)
  with assms obtain ue s' where "g (state a) (create_request N vs p) = (UserErrors ue, s')"
    by (rule answers_mutationsD)
  then have "add_loop g N (JArray vs) (p # ps) errs a
      = add_loop g N (JArray vs) ps (errs @ map message ue)
          \<lparr>state = s', calls = calls a @ [(create_request N vs p, UserErrors ue)]\<rparr>"
    by (simp add: add_product_array)
  with Cons.IH show ?case by simp
qed



lemma answers_mutations_shop: "answers_mutations shop"
  by (auto simp: answers_mutations_def shop_def split: list.splits)



subsection \<open>Matching on ASCII text\<close>

lemma find_option_None_ascii:
  assumes "toLowerCase rt S = ascii_lowercase S"
    and "\<forall>opt \<in> set (product_options p). toLowerCase rt (option_name opt) = ascii_lowercase (option_name opt)"
  shows "find_option rt S p \<noteq> None
           \<longleftrightarrow> (\<exists>opt \<in> set (product_options p). ascii_ci_contains (option_name opt) S)"
proof -
  have "string_includes (toLowerCase rt (option_name opt)) (toLowerCase rt S)
        \<longleftrightarrow> ascii_ci_contains (option_name opt) S"
    if "opt \<in> set (product_options p)" for opt
    using assms that by (simp add: includes_ascii_lower_iff)
  then show ?thesis
    by (auto simp: find_option_def find_None_iff)
qed

section \<open>The claims\<close>

subsection \<open>C1: the reader returns every node of every page\<close>

text \<open>
  C1, as amended. Let \<open>ps\<close> be the pages the remote returns to the reader, the last of
  them the first to report \<^verbatim>\<open>hasNextPage = false\<close>, and let every page that reports
  \<^verbatim>\<open>hasNextPage = true\<close> hold at least one edge. Then the reader terminates and returns
  the nodes of all pages, each once, in the order of the pages and of their edges; it
  has fetched exactly these pages, and the number of products is the sum of the page
  sizes.
\<close>

theorem reader_returns_every_node:
  assumes "serves g (state a) None ps" and "ps \<noteq> []"
    and "\<forall>p \<in> set (butlast ps). hasNextPage p \<and> edges p \<noteq> []"
    and "\<not> hasNextPage (last ps)"
  shows "\<exists>a'. loader g a = Some (Inr (concat (map (\<lambda>p. map node (edges p)) ps)), a')
           \<and> map snd (calls a') = map snd (calls a) @ map ProductsData ps
           \<and> length (concat (map (\<lambda>p. map node (edges p)) ps))
               = sum_list (map (\<lambda>p. length (edges p)) ps)"
  using fetchAll_serves [OF assms, of "[]"]
  by (simp add: loader_def length_concat_edges)

text \<open>C1, an instance: two pages of sizes 2 and 1 give 3 products.\<close>

theorem reader_returns_every_node_witness:
  "serves scripted [ProductsData (page_of [shirt, mug] True), ProductsData (page_of [shirt] False)] None
      [page_of [shirt, mug] True, page_of [shirt] False]
   \<and> (\<exists>a'. loader scripted
              \<lparr>state = [ProductsData (page_of [shirt, mug] True), ProductsData (page_of [shirt] False)],
               calls = []\<rparr> = Some (Inr [shirt, mug, shirt], a')
          \<and> map snd (calls a')
              = [ProductsData (page_of [shirt, mug] True), ProductsData (page_of [shirt] False)]
          \<and> length [shirt, mug, shirt] = 2 + 1)"
proof -
  let ?ps = "[page_of [shirt, mug] True, page_of [shirt] False]"
  let ?a = "\<lparr>state = map ProductsData ?ps, calls = []\<rparr>"
  have h1: "serves scripted (state ?a) None ?ps" by simp
  have h2: "?ps \<noteq> []" by simp
  have h3: "\<forall>p \<in> set (butlast ?ps). hasNextPage p \<and> edges p \<noteq> []"
    by (simp add: page_of_def)
  have h4: "\<not> hasNextPage (last ?ps)" by (simp add: page_of_def)
  show ?thesis
    using h1 reader_returns_every_node [OF h1 h2 h3 h4]
    by (simp add: page_of_def)
qed

text \<open>
  C1 as stated fails: of the two page responses below the second reports
  \<^verbatim>\<open>hasNextPage = false\<close>, yet the reader does not return the product of the second
  page. The first page reports a next page and has no edge, so reading the cursor of
  its last edge throws and the second page is never requested.
\<close>

theorem reader_aborts_on_empty_page:
  "loader scripted
     \<lparr>state = [ProductsData (page_of [] True), ProductsData (page_of [shirt] False)], calls = []\<rparr>
   = Some (Inl TypeError,
           \<lparr>state = [ProductsData (page_of [shirt] False)],
            calls = [(AllProducts 250 None, ProductsData (page_of [] True))]\<rparr>)"
  by (simp add: loader_def fetchAll.simps graphql_def page_of_def)

subsection \<open>C2: the products the add route acts on\<close>

text \<open>
  C2. For every option name \<open>N\<close> (the action passes the trimmed name) and every
  runtime, \<open>toAdd\<close> keeps exactly the products none of whose options has a name equal
  to \<open>N\<close> up to case, in catalogue order: a product is in \<open>toAdd\<close> if and only if it
  has no such option. Against a remote that answers every mutation, the loop over
  \<open>toAdd\<close> runs to its end and the calls it makes are the create calls for the
  products of \<open>toAdd\<close>, one each, in that order. Where the runtime lowers \<open>N\<close> and the
  option names as ASCII text, equality up to case is agreement letter by letter.
\<close>

theorem toAdd_iff_option_missing:
  "toAdd rt N all =
     filter (\<lambda>p. \<not> (\<exists>opt \<in> set (product_options p). ci_equal rt (option_name opt) N)) all
   \<and> (answers_mutations g
        \<longrightarrow> (\<exists>errs' a'. add_loop g N (JArray vs) (toAdd rt N all) errs a = (Inr errs', a')
               \<and> map fst (issued a a') = map (create_request N vs) (toAdd rt N all)))
   \<and> (toLowerCase rt N = ascii_lowercase N
        \<and> (\<forall>p \<in> set all. \<forall>opt \<in> set (product_options p).
              toLowerCase rt (option_name opt) = ascii_lowercase (option_name opt))
        \<longrightarrow> toAdd rt N all =
              filter (\<lambda>p. \<not> (\<exists>opt \<in> set (product_options p). ascii_ci_equal (option_name opt) N))
                all)"
proof (intro conjI impI)
  show "toAdd rt N all =
     filter (\<lambda>p. \<not> (\<exists>opt \<in> set (product_options p). ci_equal rt (option_name opt) N)) all"
    by (simp add: toAdd_def list_ex_iff ci_equal_def)
next
  assume "answers_mutations g"
  then obtain errs' a' where
    l: "add_loop g N (JArray vs) (toAdd rt N all) errs a = (Inr errs', a')"
    using add_loop_completes by blast
  from add_loop_issued(1) [OF l] l
  show "\<exists>errs' a'. add_loop g N (JArray vs) (toAdd rt N all) errs a = (Inr errs', a')
               \<and> map fst (issued a a') = map (create_request N vs) (toAdd rt N all)"
    by blast
next
  assume h: "toLowerCase rt N = ascii_lowercase N
        \<and> (\<forall>p \<in> set all. \<forall>opt \<in> set (product_options p).
              toLowerCase rt (option_name opt) = ascii_lowercase (option_name opt))"
  have "(\<exists>opt \<in> set (product_options p). toLowerCase rt (option_name opt) = toLowerCase rt N)
        \<longleftrightarrow> (\<exists>opt \<in> set (product_options p). ascii_ci_equal (option_name opt) N)"
    if "p \<in> set all" for p
    using h that by (simp add: ascii_lowercase_eq_iff)
  then show "toAdd rt N all =
              filter (\<lambda>p. \<not> (\<exists>opt \<in> set (product_options p). ascii_ci_equal (option_name opt) N))
                all"
    by (simp add: toAdd_def list_ex_iff cong: filter_cong)
qed


text \<open>C2, an instance: the shirt has an option \<^verbatim>\<open>Color\<close>, the mug has not, and the
  one create call goes to the mug.\<close>

theorem toAdd_iff_option_missing_witness:
  "toAdd sample_runtime ''COLOR'' [shirt, mug] = [mug]
   \<and> ascii_ci_equal ''Color'' ''COLOR''
   \<and> answers_mutations shop
   \<and> add_loop shop ''COLOR'' (JArray [JString ''Red'']) (toAdd sample_runtime ''COLOR'' [shirt, mug]) []
        \<lparr>state = ([], [[]]), calls = []\<rparr>
     = (Inr [], \<lparr>state = ([], []),
                 calls = [(create_request ''COLOR'' [JString ''Red''] mug, UserErrors [])]\<rparr>)
   \<and> map fst (issued \<lparr>state = ([], [[]]) :: page list \<times> user_error list list, calls = []\<rparr>
                  \<lparr>state = ([], []),
                   calls = [(create_request ''COLOR'' [JString ''Red''] mug, UserErrors [])]\<rparr>)
     = [create_request ''COLOR'' [JString ''Red''] mug]"
proof -
  let ?a = "\<lparr>state = ([], [[]]) :: page list \<times> user_error list list, calls = []\<rparr>"
  let ?a' = "\<lparr>state = ([], []) :: page list \<times> user_error list list,
              calls = [(create_request ''COLOR'' [JString ''Red''] mug, UserErrors [])]\<rparr>"
  have yes: "ascii_ci_equal ''Color'' ''COLOR''"
    by (simp add: ascii_ci_equal_def same_letter_def)
  have no: "\<not> ascii_ci_equal ''Title'' ''COLOR''"
    by (simp add: ascii_ci_equal_def same_letter_def)
  note inst = toAdd_iff_option_missing
    [where rt = sample_runtime and N = "''COLOR''" and all = "[shirt, mug]" and g = shop
       and vs = "[JString ''Red'']" and errs = "[]" and a = ?a]
  have h: "toLowerCase sample_runtime ''COLOR'' = ascii_lowercase ''COLOR''
        \<and> (\<forall>p \<in> set [shirt, mug]. \<forall>opt \<in> set (product_options p).
              toLowerCase sample_runtime (option_name opt) = ascii_lowercase (option_name opt))"
    by simp
  from inst h have "toAdd sample_runtime ''COLOR'' [shirt, mug]
      = filter (\<lambda>p. \<not> (\<exists>opt \<in> set (product_options p). ascii_ci_equal (option_name opt) ''COLOR''))
          [shirt, mug]"
    by blast
  then have t: "toAdd sample_runtime ''COLOR'' [shirt, mug] = [mug]"
    by (simp add: shirt_def mug_def colour_def title_option_def yes no)
  have l: "add_loop shop ''COLOR'' (JArray [JString ''Red'']) (toAdd sample_runtime ''COLOR'' [shirt, mug]) [] ?a
             = (Inr [], ?a')"
    by (simp add: t add_product_array shop_def create_request_def)
  from inst answers_mutations_shop l
  have "map fst (issued ?a ?a')
          = map (create_request ''COLOR'' [JString ''Red'']) (toAdd sample_runtime ''COLOR'' [shirt, mug])"
    by auto
  then have m: "map fst (issued ?a ?a') = [create_request ''COLOR'' [JString ''Red''] mug]"
    by (simp add: t)
  from t yes answers_mutations_shop l m show ?thesis by blast
qed

subsection \<open>C3: the products and the option the remove route acts on\<close>

text \<open>
  C3. For every product \<open>p\<close>, search term \<open>S\<close> and runtime: the remove route finds an
  option in \<open>p\<close> if and only if some option name of \<open>p\<close> contains \<open>S\<close> up to case; the
  option found is the first such option of \<open>p\<close>, and every call of the iteration is the
  update or the delete request for that option; when no option matches, the iteration
  makes no call and records no error. Where the runtime lowers \<open>S\<close> and the option
  names as ASCII text, containment up to case is an occurrence of \<open>S\<close> that agrees
  letter by letter.
\<close>

theorem removal_target_iff:
  "(find_option rt S p \<noteq> None
      \<longleftrightarrow> (\<exists>opt \<in> set (product_options p). ci_contains rt (option_name opt) S))
   \<and> (\<forall>opt. find_option rt S p = Some opt \<longrightarrow>
         ci_contains rt (option_name opt) S
         \<and> (\<exists>pre post. product_options p = pre @ opt # post
               \<and> (\<forall>o' \<in> set pre. \<not> ci_contains rt (option_name o') S))
         \<and> (\<exists>new. calls (snd (remove_product rt g S p errs a)) = calls a @ new \<and> new \<noteq> []
               \<and> (\<forall>c \<in> set new. fst c = update_request p opt \<or> fst c = delete_request p opt)))
   \<and> (find_option rt S p = None \<longrightarrow> remove_product rt g S p errs a = (Inr errs, a))
   \<and> (toLowerCase rt S = ascii_lowercase S
        \<and> (\<forall>opt \<in> set (product_options p).
              toLowerCase rt (option_name opt) = ascii_lowercase (option_name opt))
        \<longrightarrow> (find_option rt S p \<noteq> None
              \<longleftrightarrow> (\<exists>opt \<in> set (product_options p). ascii_ci_contains (option_name opt) S)))"
proof (intro conjI allI impI)
  show "find_option rt S p \<noteq> None
      \<longleftrightarrow> (\<exists>opt \<in> set (product_options p). ci_contains rt (option_name opt) S)"
    by (simp add: find_option_None_iff)
next
  fix opt assume "find_option rt S p = Some opt"
  then show "ci_contains rt (option_name opt) S"
    by (rule find_option_first)
next
  fix opt assume "find_option rt S p = Some opt"
  then show "\<exists>pre post. product_options p = pre @ opt # post
               \<and> (\<forall>o' \<in> set pre. \<not> ci_contains rt (option_name o') S)"
    by (rule find_option_first)
next
  fix opt assume "find_option rt S p = Some opt"
  then show "\<exists>new. calls (snd (remove_product rt g S p errs a)) = calls a @ new \<and> new \<noteq> []
               \<and> (\<forall>c \<in> set new. fst c = update_request p opt \<or> fst c = delete_request p opt)"
    by (rule remove_product_requests)
next
  assume "find_option rt S p = None"
  then show "remove_product rt g S p errs a = (Inr errs, a)"
    by (rule remove_product_None)
next
  assume "toLowerCase rt S = ascii_lowercase S
        \<and> (\<forall>opt \<in> set (product_options p).
              toLowerCase rt (option_name opt) = ascii_lowercase (option_name opt))"
  then show "find_option rt S p \<noteq> None
              \<longleftrightarrow> (\<exists>opt \<in> set (product_options p). ascii_ci_contains (option_name opt) S)"
    using find_option_None_ascii [of rt S p] by blast
qed

text \<open>C3, an instance: \<^verbatim>\<open>PACK\<close> picks the first of the tent's two pack options and
  nothing on the mug.\<close>

theorem removal_target_iff_witness:
  "find_option sample_runtime ''PACK'' tent = Some pack_weight
   \<and> ci_contains sample_runtime ''Pack weight'' ''PACK''
   \<and> \<not> ci_contains sample_runtime ''Title'' ''PACK''
   \<and> find_option sample_runtime ''PACK'' mug = None
   \<and> \<not> ascii_ci_contains ''Title'' ''PACK''
   \<and> remove_product sample_runtime scripted ''PACK'' mug [] \<lparr>state = [], calls = []\<rparr>
       = (Inr [], \<lparr>state = [], calls = []\<rparr>)"
proof -
  note tent = removal_target_iff
    [where rt = sample_runtime and S = "''PACK''" and p = tent and g = scripted and errs = "[]"
       and a = "\<lparr>state = [], calls = []\<rparr>"]
  note mug = removal_target_iff
    [where rt = sample_runtime and S = "''PACK''" and p = mug and g = scripted and errs = "[]"
       and a = "\<lparr>state = [], calls = []\<rparr>"]
  from tent tent_match have "ci_contains sample_runtime (option_name pack_weight) ''PACK''" by blast
  moreover from mug mug_match
  have "\<not> ci_contains sample_runtime (option_name title_option) ''PACK''"
    by (simp add: mug_def)
  moreover from mug mug_match
  have "\<not> ascii_ci_contains (option_name title_option) ''PACK''"
    by (simp add: mug_def)
  moreover from mug mug_match
  have "remove_product sample_runtime scripted ''PACK'' mug [] \<lparr>state = [], calls = []\<rparr>
       = (Inr [], \<lparr>state = [], calls = []\<rparr>)" by blast
  ultimately show ?thesis
    using tent_match mug_match by (simp add: pack_weight_def title_option_def)
qed

subsection \<open>C4: the update call keeps the first value\<close>

text \<open>
  C4. For a matched option with \<open>k > 1\<close> values the iteration begins with the one
  update call it makes, whose delete list is the ids of all values but the first, in
  value order, \<open>k - 1\<close> of them. Over a whole run, every update call in the log of the
  remove action is such a call for an option of a fetched product and lists fewer ids
  than the option has values, and neither the add action nor a loader makes an update
  call: no call asks to delete all values of an option.
\<close>

theorem update_keeps_first_value:
  "(find_option rt S p = Some opt \<and> 1 < length (optionValues opt) \<longrightarrow>
      (\<exists>resp rest. issued a (snd (remove_product rt g S p errs a))
            = (UpdateOptionValues (product_id p)
                 \<lparr>update_id = option_id opt, update_name = option_name opt,
                  update_position = option_position opt\<rparr>
                 (tl (map value_id (optionValues opt))), resp) # rest
          \<and> (\<forall>c \<in> set rest. \<not> is_update (fst c)))
      \<and> length (tl (map value_id (optionValues opt))) = length (optionValues opt) - 1)
   \<and> (action_remove rt g frm a = Some (res, a') \<longrightarrow>
        (\<forall>c \<in> set (issued a a'). \<forall>pid upd del. fst c = UpdateOptionValues pid upd del \<longrightarrow>
           (\<exists>all a1. fetchAll g [] None a = Some (Inr all, a1)
              \<and> (\<exists>p \<in> set all. \<exists>opt \<in> set (product_options p).
                    pid = product_id p \<and> update_id upd = option_id opt
                  \<and> del = tl (map value_id (optionValues opt))
                  \<and> length del < length (optionValues opt)))))
   \<and> (action_add rt g frm a = Some (res, a')
        \<longrightarrow> (\<forall>c \<in> set (issued a a'). \<not> is_update (fst c)))
   \<and> (loader g a = Some (lres, a')
        \<longrightarrow> (\<forall>c \<in> set (issued a a'). \<not> is_update (fst c)))"
proof (intro conjI impI ballI allI)
  assume "find_option rt S p = Some opt \<and> 1 < length (optionValues opt)"
  then show "\<exists>resp rest. issued a (snd (remove_product rt g S p errs a))
            = (UpdateOptionValues (product_id p)
                 \<lparr>update_id = option_id opt, update_name = option_name opt,
                  update_position = option_position opt\<rparr>
                 (tl (map value_id (optionValues opt))), resp) # rest
          \<and> (\<forall>c \<in> set rest. \<not> is_update (fst c))"
    using remove_product_update_first [of rt S p opt a g errs]
    by (simp add: update_request_def)
next
  show "length (tl (map value_id (optionValues opt))) = length (optionValues opt) - 1"
    by simp
next
  fix c pid upd del
  assume "action_remove rt g frm a = Some (res, a')" and "c \<in> set (issued a a')"
    and c: "fst c = UpdateOptionValues pid upd del"
  from action_remove_updates [OF this] obtain all a1 p opt where
    f: "fetchAll g [] None a = Some (Inr all, a1)"
    and p: "p \<in> set all" "opt \<in> set (product_options p)"
    and u: "fst c = update_request p opt" "length del < length (optionValues opt)"
    by blast
  from u(1) c have "pid = product_id p" "update_id upd = option_id opt"
    "del = tl (map value_id (optionValues opt))"
    by (auto simp: update_request_def)
  with f p u(2)
  show "\<exists>all a1. fetchAll g [] None a = Some (Inr all, a1)
              \<and> (\<exists>p \<in> set all. \<exists>opt \<in> set (product_options p).
                    pid = product_id p \<and> update_id upd = option_id opt
                  \<and> del = tl (map value_id (optionValues opt))
                  \<and> length del < length (optionValues opt))"
    by blast
next
  fix c
  assume "action_add rt g frm a = Some (res, a')" and "c \<in> set (issued a a')"
  then show "\<not> is_update (fst c)" by (rule action_add_no_update)
next
  fix c
  assume "loader g a = Some (lres, a')" and "c \<in> set (issued a a')"
  then show "\<not> is_update (fst c)" by (rule loader_no_update)
qed


text \<open>C4, an instance: the tent's option \<^verbatim>\<open>Pack weight\<close> has three values; the
  update call lists the second and the third.\<close>

theorem update_keeps_first_value_witness:
  "find_option sample_runtime ''PACK'' tent = Some pack_weight
   \<and> 1 < length (optionValues pack_weight)
   \<and> (\<exists>resp rest.
         issued \<lparr>state = [UserErrors [], UserErrors []], calls = []\<rparr>
           (snd (remove_product sample_runtime scripted ''PACK'' tent []
                   \<lparr>state = [UserErrors [], UserErrors []], calls = []\<rparr>))
         = (UpdateOptionValues ''p3''
              \<lparr>update_id = ''o3'', update_name = ''Pack weight'', update_position = 2\<rparr>
              [''w2'', ''w3''], resp) # rest)
   \<and> action_remove sample_runtime scripted \<lparr>form_optionName = Some ''PACK'', form_values = None\<rparr>
        \<lparr>state = [ProductsData (page_of [tent, mug] False), UserErrors [], UserErrors []],
         calls = []\<rparr>
     = Some (Inr \<lparr>success = True, error = None, addedCount = None\<rparr>,
             \<lparr>state = [],
              calls = [(AllProducts 250 None, ProductsData (page_of [tent, mug] False)),
                       (UpdateOptionValues ''p3''
                          \<lparr>update_id = ''o3'', update_name = ''Pack weight'', update_position = 2\<rparr>
                          [''w2'', ''w3''], UserErrors []),
                       (DeleteOptions ''p3'' [''o3''], UserErrors [])]\<rparr>)
   \<and> (\<exists>all a1. fetchAll scripted [] None
                    \<lparr>state = [ProductsData (page_of [tent, mug] False), UserErrors [], UserErrors []],
                     calls = []\<rparr> = Some (Inr all, a1)
          \<and> (\<exists>p \<in> set all. \<exists>opt \<in> set (product_options p).
                 ''p3'' = product_id p \<and> ''o3'' = option_id opt
               \<and> [''w2'', ''w3''] = tl (map value_id (optionValues opt))
               \<and> length [''w2'', ''w3''] < length (optionValues opt)))"
proof -
  let ?a = "\<lparr>state = [UserErrors [], UserErrors []], calls = []\<rparr>"
  let ?fr = "\<lparr>form_optionName = Some ''PACK'', form_values = None\<rparr>"
  let ?ar = "\<lparr>state = [ProductsData (page_of [tent, mug] False), UserErrors [], UserErrors []],
              calls = []\<rparr>"
  let ?r1 = "\<lparr>state = [UserErrors [], UserErrors []],
              calls = [(AllProducts 250 None, ProductsData (page_of [tent, mug] False))]\<rparr>"
  let ?u = "UpdateOptionValues ''p3''
              \<lparr>update_id = ''o3'', update_name = ''Pack weight'', update_position = 2\<rparr>
              [''w2'', ''w3'']"
  let ?r2 = "\<lparr>state = [],
              calls = [(AllProducts 250 None, ProductsData (page_of [tent, mug] False)),
                       (?u, UserErrors []), (DeleteOptions ''p3'' [''o3''], UserErrors [])]\<rparr>"
  have k3: "1 < length (optionValues pack_weight)" by (simp add: pack_weight_def)
  have u: "update_request tent pack_weight = ?u"
    by (simp add: update_request_def tent_def pack_weight_def)
  have d: "delete_request tent pack_weight = DeleteOptions ''p3'' [''o3'']"
    by (simp add: delete_request_def tent_def pack_weight_def)
  have nr: "form_name sample_runtime ?fr = ''PACK''" by (simp add: form_name_def trims)
  have vr: "form_name sample_runtime ?fr \<noteq> []" by (simp add: nr)
  have fr: "fetchAll scripted [] None ?ar = Some (Inr [tent, mug], ?r1)"
    by (rule sample_fetch)
  have lr: "remove_loop sample_runtime scripted ''PACK'' [tent, mug] [] ?r1 = (Inr [], ?r2)"
    by (simp add: remove_product_many [OF tent_match k3] remove_product_None [OF mug_match]
          delete_option_eq u d)
  have rr: "action_remove sample_runtime scripted ?fr ?ar
              = Some (Inr \<lparr>success = True, error = None, addedCount = None\<rparr>, ?r2)"
    using action_remove_valid [where frm = ?fr and g = scripted and a = ?ar, OF vr]
    by (simp add: fr nr lr del: remove_loop.simps)
  note one = update_keeps_first_value
    [where S = "''PACK''" and p = tent and opt = pack_weight and g = scripted and a = ?a
       and errs = "[]"]
  have u': "UpdateOptionValues (product_id tent)
              \<lparr>update_id = option_id pack_weight, update_name = option_name pack_weight,
               update_position = option_position pack_weight\<rparr>
              (tl (map value_id (optionValues pack_weight))) = ?u"
    by (simp add: tent_def pack_weight_def)
  from one tent_match k3
  have "\<exists>resp rest. issued ?a (snd (remove_product sample_runtime scripted ''PACK'' tent [] ?a))
             = (UpdateOptionValues (product_id tent)
              \<lparr>update_id = option_id pack_weight, update_name = option_name pack_weight,
               update_position = option_position pack_weight\<rparr>
              (tl (map value_id (optionValues pack_weight))), resp) # rest"
    by blast
  then have A: "\<exists>resp rest. issued ?a (snd (remove_product sample_runtime scripted ''PACK'' tent [] ?a))
             = (?u, resp) # rest"
    by (simp only: u')
  note two = update_keeps_first_value
    [where g = scripted and frm = ?fr and a = ?ar and res = "Inr \<lparr>success = True, error = None, addedCount = None\<rparr>"
       and a' = ?r2]
  have m: "(?u, UserErrors []) \<in> set (issued ?ar ?r2)" by (simp add: issued_def)
  from two rr m
  have B: "\<exists>all a1. fetchAll scripted [] None ?ar = Some (Inr all, a1)
          \<and> (\<exists>p \<in> set all. \<exists>opt \<in> set (product_options p).
                 ''p3'' = product_id p \<and> ''o3'' = option_id opt
               \<and> [''w2'', ''w3''] = tl (map value_id (optionValues opt))
               \<and> length [''w2'', ''w3''] < length (optionValues opt))"
    by fastforce
  from tent_match k3 A rr B show ?thesis by blast
qed

subsection \<open>C5: an update that reports errors\<close>

text \<open>
  C5, as amended. When the matched option of \<open>p\<close> has more than one value and the
  update call returns a non-empty list of user errors, the iteration appends their
  messages to the error list and ends after that one call, so no delete call is made
  for \<open>p\<close>, and the loop goes on with the remaining products. The remote is left in
  the state in which it answered the update call, whatever that state is.
\<close>

theorem update_error_skips_delete:
  assumes "find_option rt S p = Some opt" and "1 < length (optionValues opt)"
    and "g (state a) (update_request p opt) = (UserErrors ue, s')" and "ue \<noteq> []"
  shows "remove_product rt g S p errs a
           = (Inr (errs @ map message ue),
              \<lparr>state = s', calls = calls a @ [(update_request p opt, UserErrors ue)]\<rparr>)
         \<and> remove_loop rt g S (p # rest) errs a
           = remove_loop rt g S rest (errs @ map message ue)
               \<lparr>state = s', calls = calls a @ [(update_request p opt, UserErrors ue)]\<rparr>"
  using assms by (simp add: remove_product_many)

text \<open>C5, an instance: the update for the tent fails; the response queued for a
  delete call is left unread, and the loop goes on to the mug.\<close>

theorem update_error_skips_delete_witness:
  "remove_product sample_runtime scripted ''PACK'' tent [] \<lparr>state = [UserErrors [locked], UserErrors []], calls = []\<rparr>
     = (Inr [''Product is locked''],
        \<lparr>state = [UserErrors []],
         calls = [(UpdateOptionValues ''p3''
                     \<lparr>update_id = ''o3'', update_name = ''Pack weight'', update_position = 2\<rparr>
                     [''w2'', ''w3''], UserErrors [locked])]\<rparr>)
   \<and> remove_loop sample_runtime scripted ''PACK'' [tent, mug] []
        \<lparr>state = [UserErrors [locked], UserErrors []], calls = []\<rparr>
     = (Inr [''Product is locked''],
        \<lparr>state = [UserErrors []],
         calls = [(UpdateOptionValues ''p3''
                     \<lparr>update_id = ''o3'', update_name = ''Pack weight'', update_position = 2\<rparr>
                     [''w2'', ''w3''], UserErrors [locked])]\<rparr>)"
proof -
  let ?a = "\<lparr>state = [UserErrors [locked], UserErrors []], calls = []\<rparr>"
  have h2: "1 < length (optionValues pack_weight)" by (simp add: pack_weight_def)
  have h3: "scripted (state ?a) (update_request tent pack_weight)
              = (UserErrors [locked], [UserErrors []])" by simp
  have h4: "[locked] \<noteq> []" by simp
  have u: "update_request tent pack_weight
             = UpdateOptionValues ''p3''
                 \<lparr>update_id = ''o3'', update_name = ''Pack weight'', update_position = 2\<rparr>
                 [''w2'', ''w3'']"
    by (simp add: update_request_def tent_def pack_weight_def)
  have m: "message locked = ''Product is locked''" by (simp add: locked_def)
  show ?thesis
    using update_error_skips_delete [where g = scripted and a = ?a, OF tent_match h2 h3 h4, of "[]" "[mug]"]
    by (simp add: u m remove_product_None [OF mug_match])
qed

text \<open>
  C5 as stated fails in its remark that the option is left with a single value: the
  remote below refuses the update and keeps the catalogue as it is, so after the
  iteration the matched option of the tent still has its three values.
\<close>

theorem refused_update_keeps_all_values:
  "remove_product sample_runtime refusing ''PACK'' tent [] \<lparr>state = [tent], calls = []\<rparr>
     = (Inr [''Product is locked''],
        \<lparr>state = [tent],
         calls = [(update_request tent pack_weight, UserErrors [locked])]\<rparr>)
   \<and> find_option sample_runtime ''PACK'' tent = Some pack_weight
   \<and> length (optionValues pack_weight) = 3"
proof -
  have k3: "1 < length (optionValues pack_weight)" by (simp add: pack_weight_def)
  have "remove_product sample_runtime refusing ''PACK'' tent [] \<lparr>state = [tent], calls = []\<rparr>
     = (Inr [''Product is locked''],
        \<lparr>state = [tent],
         calls = [(update_request tent pack_weight, UserErrors [locked])]\<rparr>)"
    by (simp add: remove_product_many [OF tent_match k3] refusing_def update_request_def locked_def)
  moreover have "length (optionValues pack_weight) = 3" by (simp add: pack_weight_def)
  ultimately show ?thesis using tent_match by blast
qed

subsection \<open>C6: the aggregate error list\<close>




subsection \<open>C7: validation in the add route\<close>

text \<open>
  C7, as amended. When the option name is absent or empty after trimming, or the
  \<^verbatim>\<open>values\<close> field is absent, is the empty string or is not parseable as JSON, the
  action returns a validation failure and has made no remote call: the client is
  returned as it was.
\<close>

theorem add_rejects_malformed_input:
  assumes "form_name rt frm = [] \<or> form_json frm = [] \<or> JSON_parse rt (form_json frm) = None"
  shows "\<exists>msg. action_add rt g frm a = Some (Inr (failure msg), a)
           \<and> issued a a = []"
  using action_add_invalid [where rt = rt and frm = frm and g = g and a = a, OF assms]
  by (simp add: issued_def)

text \<open>C7, three instances: a blank name, a missing values field, and the text
  \<^verbatim>\<open>[\<close>.\<close>

theorem add_rejects_malformed_input_witness:
  "form_name sample_runtime \<lparr>form_optionName = Some ''   '', form_values = Some ''[]''\<rparr> = []
   \<and> form_json \<lparr>form_optionName = Some ''Size'', form_values = None\<rparr> = []
   \<and> JSON_parse sample_runtime (form_json \<lparr>form_optionName = Some ''Size'', form_values = Some ''[''\<rparr>) = None
   \<and> (\<exists>msg. action_add sample_runtime scripted
               \<lparr>form_optionName = Some ''   '', form_values = Some ''[]''\<rparr>
               \<lparr>state = [ProductsData (page_of [mug] False)], calls = []\<rparr>
             = Some (Inr (failure msg), \<lparr>state = [ProductsData (page_of [mug] False)], calls = []\<rparr>))
   \<and> (\<exists>msg. action_add sample_runtime scripted
               \<lparr>form_optionName = Some ''Size'', form_values = None\<rparr>
               \<lparr>state = [ProductsData (page_of [mug] False)], calls = []\<rparr>
             = Some (Inr (failure msg), \<lparr>state = [ProductsData (page_of [mug] False)], calls = []\<rparr>))
   \<and> (\<exists>msg. action_add sample_runtime scripted
               \<lparr>form_optionName = Some ''Size'', form_values = Some ''[''\<rparr>
               \<lparr>state = [ProductsData (page_of [mug] False)], calls = []\<rparr>
             = Some (Inr (failure msg), \<lparr>state = [ProductsData (page_of [mug] False)], calls = []\<rparr>))"
proof -
  let ?a = "\<lparr>state = [ProductsData (page_of [mug] False)], calls = []\<rparr>"
  let ?f1 = "\<lparr>form_optionName = Some ''   '', form_values = Some ''[]''\<rparr>"
  let ?f2 = "\<lparr>form_optionName = Some ''Size'', form_values = None\<rparr>"
  let ?f3 = "\<lparr>form_optionName = Some ''Size'', form_values = Some ''[''\<rparr>"
  have h1: "form_name sample_runtime ?f1 = []" by (simp add: form_name_def trims)
  have h2: "form_json ?f2 = []" by (simp add: form_json_def)
  have h3: "JSON_parse sample_runtime (form_json ?f3) = None"
    by (simp add: form_json_def JSON_parse_sample_def red_text_def)
  from h1 have d1: "form_name sample_runtime ?f1 = [] \<or> form_json ?f1 = [] \<or> JSON_parse sample_runtime (form_json ?f1) = None"
    by blast
  from h2 have d2: "form_name sample_runtime ?f2 = [] \<or> form_json ?f2 = [] \<or> JSON_parse sample_runtime (form_json ?f2) = None"
    by blast
  from h3 have d3: "form_name sample_runtime ?f3 = [] \<or> form_json ?f3 = [] \<or> JSON_parse sample_runtime (form_json ?f3) = None"
    by blast
  show ?thesis
    using h1 h2 h3
      add_rejects_malformed_input
        [where rt = sample_runtime and frm = ?f1 and g = scripted and a = ?a, OF d1]
      add_rejects_malformed_input
        [where rt = sample_runtime and frm = ?f2 and g = scripted and a = ?a, OF d2]
      add_rejects_malformed_input
        [where rt = sample_runtime and frm = ?f3 and g = scripted and a = ?a, OF d3]
    by blast
qed

text \<open>
  C7 as stated fails for an empty value list: for \<^verbatim>\<open>values = "[]"\<close> the action
  returns no validation failure; it lists the products and creates the option, with no
  values, on the one product of the catalogue.
\<close>

theorem add_accepts_empty_list:
  "action_add sample_runtime scripted
     \<lparr>form_optionName = Some ''Size'', form_values = Some ''[]''\<rparr>
     \<lparr>state = [ProductsData (page_of [mug] False), UserErrors []], calls = []\<rparr>
   = Some (Inr \<lparr>success = True, error = None, addedCount = Some 1\<rparr>,
           \<lparr>state = [],
            calls = [(AllProducts 250 None, ProductsData (page_of [mug] False)),
                     (AddOption ''p2'' [\<lparr>create_name = ''Size'', create_values = []\<rparr>],
                      UserErrors [])]\<rparr>)"
proof -
  let ?f = "\<lparr>form_optionName = Some ''Size'', form_values = Some ''[]''\<rparr>"
  let ?a = "\<lparr>state = [ProductsData (page_of [mug] False), UserErrors []], calls = []\<rparr>"
  have n: "form_name sample_runtime ?f = ''Size''" by (simp add: form_name_def trims)
  have j: "form_json ?f = ''[]''" by (simp add: form_json_def)
  have p: "JSON_parse_sample ''[]'' = Some (JArray [])" by (simp add: JSON_parse_sample_def)
  have f: "fetchAll scripted [] None ?a
             = Some (Inr [mug], \<lparr>state = [UserErrors []],
                       calls = [(AllProducts 250 None, ProductsData (page_of [mug] False))]\<rparr>)"
    by (simp add: fetchAll.simps graphql_def page_of_def)
  have low: "ascii_lowercase ''Size'' = ''size''" by code_simp
  have t: "toAdd sample_runtime ''Size'' [mug] = [mug]"
    by (simp add: toAdd_def mug_def title_option_def lows low)
  have "action_add sample_runtime scripted ?f ?a
          = Some (Inr \<lparr>success = True, error = None, addedCount = Some 1\<rparr>,
                  \<lparr>state = [],
                   calls = [(AllProducts 250 None, ProductsData (page_of [mug] False)),
                            (create_request ''Size'' [] mug, UserErrors [])]\<rparr>)"
    by (simp add: action_add_valid [where vals = "JArray []"] n j p f t add_product_array)
  then show ?thesis
    by (simp add: create_request_def mug_def)
qed

subsection \<open>C8: what the two actions return\<close>

text \<open>
  C8, as amended. When the request passes validation, the catalogue is read and the
  loop ends with the error list \<open>errors\<close>, each action returns success if and only if
  \<open>errors\<close> is empty, and otherwise a failure whose message is the recorded messages
  joined with \<^verbatim>\<open>"; "\<close>. On success the add action returns the number of products in
  \<open>toAdd\<close>; the remove action returns the success flag alone, without a count.
\<close>

theorem action_results:
  "(form_name rt frm \<noteq> [] \<and> form_json frm \<noteq> [] \<and> JSON_parse rt (form_json frm) = Some vals
      \<and> fetchAll g [] None a = Some (Inr all, a1)
      \<and> add_loop g (form_name rt frm) vals (toAdd rt (form_name rt frm) all) [] a1 = (Inr errors, a2)
    \<longrightarrow> action_add rt g frm a
          = Some (Inr (if errors = []
                       then \<lparr>success = True, error = None,
                             addedCount = Some (length (toAdd rt (form_name rt frm) all))\<rparr>
                       else \<lparr>success = False, error = Some (join ''; '' errors),
                             addedCount = None\<rparr>), a2))
   \<and> (form_name rt frm \<noteq> []
      \<and> fetchAll g [] None a = Some (Inr all, a1)
      \<and> remove_loop rt g (form_name rt frm) all [] a1 = (Inr errors, a2)
    \<longrightarrow> action_remove rt g frm a
          = Some (Inr (if errors = []
                       then \<lparr>success = True, error = None, addedCount = None\<rparr>
                       else \<lparr>success = False, error = Some (join ''; '' errors),
                             addedCount = None\<rparr>), a2))"
proof (intro conjI impI)
  assume "form_name rt frm \<noteq> [] \<and> form_json frm \<noteq> [] \<and> JSON_parse rt (form_json frm) = Some vals
      \<and> fetchAll g [] None a = Some (Inr all, a1)
      \<and> add_loop g (form_name rt frm) vals (toAdd rt (form_name rt frm) all) [] a1 = (Inr errors, a2)"
  then show "action_add rt g frm a
          = Some (Inr (if errors = []
                       then \<lparr>success = True, error = None,
                             addedCount = Some (length (toAdd rt (form_name rt frm) all))\<rparr>
                       else \<lparr>success = False, error = Some (join ''; '' errors),
                             addedCount = None\<rparr>), a2)"
    by (simp add: action_add_valid [where vals = vals] failure_def)
next
  assume "form_name rt frm \<noteq> []
      \<and> fetchAll g [] None a = Some (Inr all, a1)
      \<and> remove_loop rt g (form_name rt frm) all [] a1 = (Inr errors, a2)"
  then show "action_remove rt g frm a
          = Some (Inr (if errors = []
                       then \<lparr>success = True, error = None, addedCount = None\<rparr>
                       else \<lparr>success = False, error = Some (join ''; '' errors),
                             addedCount = None\<rparr>), a2)"
    by (simp add: action_remove_valid failure_def)
qed


text \<open>C8, two instances: an add that succeeds on one product, and a remove whose
  update call reports two errors.\<close>

theorem action_results_witness:
  "action_add sample_runtime scripted
     \<lparr>form_optionName = Some ''Size'', form_values = Some red_text\<rparr>
     \<lparr>state = [ProductsData (page_of [mug] False), UserErrors []], calls = []\<rparr>
   = Some (Inr \<lparr>success = True, error = None, addedCount = Some 1\<rparr>,
           \<lparr>state = [],
            calls = [(AllProducts 250 None, ProductsData (page_of [mug] False)),
                     (create_request ''Size'' [JString ''Red''] mug, UserErrors [])]\<rparr>)
   \<and> action_remove sample_runtime scripted
     \<lparr>form_optionName = Some ''PACK'', form_values = None\<rparr>
     \<lparr>state = [ProductsData (page_of [tent, mug] False), UserErrors [taken, locked]], calls = []\<rparr>
   = Some (Inr \<lparr>success = False, error = Some ''Option already exists; Product is locked'',
                addedCount = None\<rparr>,
           \<lparr>state = [],
            calls = [(AllProducts 250 None, ProductsData (page_of [tent, mug] False)),
                     (update_request tent pack_weight, UserErrors [taken, locked])]\<rparr>)"
proof -
  let ?fa = "\<lparr>form_optionName = Some ''Size'', form_values = Some red_text\<rparr>"
  let ?aa = "\<lparr>state = [ProductsData (page_of [mug] False), UserErrors []], calls = []\<rparr>"
  let ?a1 = "\<lparr>state = [UserErrors []],
              calls = [(AllProducts 250 None, ProductsData (page_of [mug] False))]\<rparr>"
  let ?a2 = "\<lparr>state = [],
              calls = [(AllProducts 250 None, ProductsData (page_of [mug] False)),
                       (create_request ''Size'' [JString ''Red''] mug, UserErrors [])]\<rparr>"
  let ?fr = "\<lparr>form_optionName = Some ''PACK'', form_values = None\<rparr>"
  let ?ar = "\<lparr>state = [ProductsData (page_of [tent, mug] False), UserErrors [taken, locked]],
              calls = []\<rparr>"
  let ?r1 = "\<lparr>state = [UserErrors [taken, locked]],
              calls = [(AllProducts 250 None, ProductsData (page_of [tent, mug] False))]\<rparr>"
  let ?r2 = "\<lparr>state = [],
              calls = [(AllProducts 250 None, ProductsData (page_of [tent, mug] False)),
                       (update_request tent pack_weight, UserErrors [taken, locked])]\<rparr>"
  have na: "form_name sample_runtime ?fa = ''Size''" by (simp add: form_name_def trims)
  have ja: "form_json ?fa = red_text" by (simp add: form_json_def)
  have la: "add_loop scripted ''Size'' (JArray [JString ''Red'']) (toAdd sample_runtime ''Size'' [mug]) [] ?a1
              = (Inr [], ?a2)"
    by (simp add: toAdd_size add_product_array)
  have A: "form_name sample_runtime ?fa \<noteq> [] \<and> form_json ?fa \<noteq> []
      \<and> JSON_parse sample_runtime (form_json ?fa) = Some (JArray [JString ''Red''])
      \<and> fetchAll scripted [] None ?aa = Some (Inr [mug], ?a1)
      \<and> add_loop scripted (form_name sample_runtime ?fa) (JArray [JString ''Red''])
            (toAdd sample_runtime (form_name sample_runtime ?fa) [mug]) [] ?a1 = (Inr [], ?a2)"
    by (simp add: na ja red_parse sample_fetch la del: add_loop.simps) (simp add: red_text_def)
  have nr: "form_name sample_runtime ?fr = ''PACK''" by (simp add: form_name_def trims)
  have k3: "1 < length (optionValues pack_weight)" by (simp add: pack_weight_def)
  have lr: "remove_loop sample_runtime scripted ''PACK'' [tent, mug] [] ?r1
              = (Inr [''Option already exists'', ''Product is locked''], ?r2)"
    by (simp add: remove_product_many [OF tent_match k3] remove_product_None [OF mug_match]
          taken_def locked_def)
  have R: "form_name sample_runtime ?fr \<noteq> []
      \<and> fetchAll scripted [] None ?ar = Some (Inr [tent, mug], ?r1)
      \<and> remove_loop sample_runtime scripted (form_name sample_runtime ?fr) [tent, mug] [] ?r1
          = (Inr [''Option already exists'', ''Product is locked''], ?r2)"
    by (simp add: nr sample_fetch lr del: remove_loop.simps)
  note inst = action_results
    [where rt = sample_runtime and g = scripted and vals = "JArray [JString ''Red'']"]
  from inst [where frm = ?fa and a = ?aa and all = "[mug]" and ?a1.0 = ?a1 and ?a2.0 = ?a2
              and errors = "[]"] A
  have 1: "action_add sample_runtime scripted ?fa ?aa
             = Some (Inr \<lparr>success = True, error = None, addedCount = Some 1\<rparr>, ?a2)"
    by (simp add: na toAdd_size)
  from inst [where frm = ?fr and a = ?ar and all = "[tent, mug]" and ?a1.0 = ?r1 and ?a2.0 = ?r2
              and errors = "[''Option already exists'', ''Product is locked'']"] R
  have 2: "action_remove sample_runtime scripted ?fr ?ar
             = Some (Inr \<lparr>success = False,
                          error = Some ''Option already exists; Product is locked'',
                          addedCount = None\<rparr>, ?r2)"
    by simp
  from 1 2 show ?thesis by simp
qed

text \<open>
  C8 as stated fails for the remove action: on success it returns
  \<^verbatim>\<open>{ success: true }\<close>, with no count.
\<close>

theorem remove_success_has_no_count:
  "action_remove sample_runtime scripted
     \<lparr>form_optionName = Some '' Title '', form_values = None\<rparr>
     \<lparr>state = [ProductsData (page_of [mug] False), UserErrors []], calls = []\<rparr>
   = Some (Inr \<lparr>success = True, error = None, addedCount = None\<rparr>,
           \<lparr>state = [],
            calls = [(AllProducts 250 None, ProductsData (page_of [mug] False)),
                     (DeleteOptions ''p2'' [''o2''], UserErrors [])]\<rparr>)"
proof -
  let ?f = "\<lparr>form_optionName = Some '' Title '', form_values = None\<rparr>"
  have n: "form_name sample_runtime ?f = ''Title''" by (simp add: form_name_def trims)
  have m: "find_option sample_runtime ''Title'' mug = Some title_option"
    by (simp add: find_option_def mug_def lows title_option_def)
  have k: "\<not> 1 < length (optionValues title_option)" by (simp add: title_option_def)
  have "action_remove sample_runtime scripted ?f
          \<lparr>state = [ProductsData (page_of [mug] False), UserErrors []], calls = []\<rparr>
        = Some (Inr \<lparr>success = True, error = None, addedCount = None\<rparr>,
           \<lparr>state = [],
            calls = [(AllProducts 250 None, ProductsData (page_of [mug] False)),
                     (delete_request mug title_option, UserErrors [])]\<rparr>)"
    by (simp add: action_remove_valid n sample_fetch remove_product_single [OF m k]
          delete_option_eq)
  then show ?thesis
    by (simp add: delete_request_def mug_def title_option_def)
qed

subsection \<open>C9: the cursor of the last edge\<close>

text \<open>
  C9. In the pagination loop, shared by both loaders and both actions, a page that
  reports \<^verbatim>\<open>hasNextPage = true\<close> and has an edge makes the loop go on with the cursor
  of its last edge; a page that reports \<^verbatim>\<open>hasNextPage = true\<close> and has no edge makes
  the read of that cursor throw. When such a page comes after any number of well-formed
  pages, the loader aborts with a \<^verbatim>\<open>TypeError\<close>, and so does each action whose request
  passed validation.
\<close>

theorem cursor_read_from_last_edge:
  "(g (state a) (AllProducts 250 after) = (ProductsData p, s') \<and> hasNextPage p \<and> edges p \<noteq> []
      \<longrightarrow> fetchAll g all after a
          = fetchAll g (all @ map node (edges p)) (Some (cursor (last (edges p))))
              (fetched a after p s'))
   \<and> (g (state a) (AllProducts 250 after) = (ProductsData p, s') \<and> hasNextPage p \<and> edges p = []
      \<longrightarrow> fetchAll g all after a = Some (Inl TypeError, fetched a after p s'))
   \<and> (serves g (state a) None (ps @ [p]) \<and> (\<forall>q \<in> set ps. hasNextPage q \<and> edges q \<noteq> [])
        \<and> hasNextPage p \<and> edges p = []
      \<longrightarrow> (\<exists>a'. loader g a = Some (Inl TypeError, a')
             \<and> map snd (calls a') = map snd (calls a) @ map ProductsData (ps @ [p])
             \<and> (form_name rt frm \<noteq> [] \<longrightarrow> action_remove rt g frm a = Some (Inl TypeError, a'))
             \<and> (form_name rt frm \<noteq> [] \<and> form_json frm \<noteq> [] \<and> JSON_parse rt (form_json frm) \<noteq> None
                  \<longrightarrow> action_add rt g frm a = Some (Inl TypeError, a'))))"
proof (intro conjI impI)
  assume "g (state a) (AllProducts 250 after) = (ProductsData p, s') \<and> hasNextPage p \<and> edges p \<noteq> []"
  then show "fetchAll g all after a
          = fetchAll g (all @ map node (edges p)) (Some (cursor (last (edges p))))
              (fetched a after p s')"
    using fetchAll_more [where g = g and a = a] by blast
next
  assume "g (state a) (AllProducts 250 after) = (ProductsData p, s') \<and> hasNextPage p \<and> edges p = []"
  then show "fetchAll g all after a = Some (Inl TypeError, fetched a after p s')"
    using fetchAll_empty [where g = g and a = a] by blast
next
  assume h: "serves g (state a) None (ps @ [p]) \<and> (\<forall>q \<in> set ps. hasNextPage q \<and> edges q \<noteq> [])
        \<and> hasNextPage p \<and> edges p = []"
  then obtain a' where
    f: "fetchAll g [] None a = Some (Inl TypeError, a')"
    and c: "map snd (calls a') = map snd (calls a) @ map ProductsData (ps @ [p])"
    using fetchAll_serves_empty [where g = g and a = a and after = None and ps = ps and p = p and all = "[]"]
    by blast
  have "loader g a = Some (Inl TypeError, a')"
    using f by (simp add: loader_def)
  moreover have "form_name rt frm \<noteq> [] \<longrightarrow> action_remove rt g frm a = Some (Inl TypeError, a')"
    using f by (simp add: action_remove_valid)
  moreover have "form_name rt frm \<noteq> [] \<and> form_json frm \<noteq> [] \<and> JSON_parse rt (form_json frm) \<noteq> None
                  \<longrightarrow> action_add rt g frm a = Some (Inl TypeError, a')"
  proof
    assume v: "form_name rt frm \<noteq> [] \<and> form_json frm \<noteq> [] \<and> JSON_parse rt (form_json frm) \<noteq> None"
    then obtain vals where "JSON_parse rt (form_json frm) = Some vals" by blast
    with v f show "action_add rt g frm a = Some (Inl TypeError, a')"
      using action_add_valid [where rt = rt and frm = frm and vals = vals and g = g and a = a]
      by simp
  qed
  ultimately show "\<exists>a'. loader g a = Some (Inl TypeError, a')
             \<and> map snd (calls a') = map snd (calls a) @ map ProductsData (ps @ [p])
             \<and> (form_name rt frm \<noteq> [] \<longrightarrow> action_remove rt g frm a = Some (Inl TypeError, a'))
             \<and> (form_name rt frm \<noteq> [] \<and> form_json frm \<noteq> [] \<and> JSON_parse rt (form_json frm) \<noteq> None
                  \<longrightarrow> action_add rt g frm a = Some (Inl TypeError, a'))"
    using c by blast
qed

text \<open>C9, an instance: a page of two products followed by an empty page that
  reports a next page.\<close>

theorem cursor_read_from_last_edge_witness:
  "fetchAll scripted [] None
      \<lparr>state = [ProductsData (page_of [shirt, mug] True), ProductsData (page_of [] True)], calls = []\<rparr>
    = fetchAll scripted [shirt, mug] (Some ''p2'')
        \<lparr>state = [ProductsData (page_of [] True)],
         calls = [(AllProducts 250 None, ProductsData (page_of [shirt, mug] True))]\<rparr>
   \<and> fetchAll scripted [shirt, mug] (Some ''p2'')
        \<lparr>state = [ProductsData (page_of [] True)],
         calls = [(AllProducts 250 None, ProductsData (page_of [shirt, mug] True))]\<rparr>
    = Some (Inl TypeError,
        \<lparr>state = [],
         calls = [(AllProducts 250 None, ProductsData (page_of [shirt, mug] True)),
                  (AllProducts 250 (Some ''p2''), ProductsData (page_of [] True))]\<rparr>)
   \<and> (\<exists>a'. loader scripted
               \<lparr>state = [ProductsData (page_of [shirt, mug] True), ProductsData (page_of [] True)],
                calls = []\<rparr> = Some (Inl TypeError, a')
          \<and> action_remove sample_runtime scripted \<lparr>form_optionName = Some ''PACK'', form_values = None\<rparr>
               \<lparr>state = [ProductsData (page_of [shirt, mug] True), ProductsData (page_of [] True)],
                calls = []\<rparr> = Some (Inl TypeError, a')
          \<and> action_add sample_runtime scripted
               \<lparr>form_optionName = Some ''Size'', form_values = Some red_text\<rparr>
               \<lparr>state = [ProductsData (page_of [shirt, mug] True), ProductsData (page_of [] True)],
                calls = []\<rparr> = Some (Inl TypeError, a'))"
proof -
  let ?p1 = "page_of [shirt, mug] True"
  let ?p2 = "page_of [] True"
  let ?a = "\<lparr>state = [ProductsData ?p1, ProductsData ?p2], calls = []\<rparr>"
  let ?a1 = "\<lparr>state = [ProductsData ?p2], calls = [(AllProducts 250 None, ProductsData ?p1)]\<rparr>"
  let ?fr = "\<lparr>form_optionName = Some ''PACK'', form_values = None\<rparr>"
  let ?fa = "\<lparr>form_optionName = Some ''Size'', form_values = Some red_text\<rparr>"
  have e1: "edges ?p1 \<noteq> []" "hasNextPage ?p1" "map node (edges ?p1) = [shirt, mug]"
    "cursor (last (edges ?p1)) = ''p2''"
    by (simp_all add: page_of_def mug_def)
  have e2: "edges ?p2 = []" "hasNextPage ?p2" by (simp_all add: page_of_def)
  have s1: "scripted (state ?a) (AllProducts 250 None) = (ProductsData ?p1, [ProductsData ?p2])"
    by simp
  have s2: "scripted (state ?a1) (AllProducts 250 (Some ''p2'')) = (ProductsData ?p2, [])"
    by simp
  have sv: "serves scripted (state ?a) None ([?p1] @ [?p2])" by simp
  have nr: "form_name sample_runtime ?fr \<noteq> []" by (simp add: form_name_def trims)
  have na: "form_name sample_runtime ?fa \<noteq> []" by (simp add: form_name_def trims)
  have ja: "form_json ?fa \<noteq> []" "JSON_parse sample_runtime (form_json ?fa) \<noteq> None"
    by (simp_all add: form_json_def red_parse) (simp add: red_text_def)
  note one = cursor_read_from_last_edge
    [where g = scripted and a = ?a and after = None and p = ?p1 and s' = "[ProductsData ?p2]"
       and all = "[]" and ps = "[?p1]" and frm = ?fr and rt = sample_runtime]
  note two = cursor_read_from_last_edge
    [where g = scripted and a = ?a1 and after = "Some ''p2''" and p = ?p2 and s' = "[]"
       and all = "[shirt, mug]" and ps = "[?p1]" and frm = ?fa and rt = sample_runtime]
  note three = cursor_read_from_last_edge
    [where g = scripted and a = ?a and p = ?p2 and ps = "[?p1]" and frm = ?fr
       and rt = sample_runtime]
  note four = cursor_read_from_last_edge
    [where g = scripted and a = ?a and p = ?p2 and ps = "[?p1]" and frm = ?fa
       and rt = sample_runtime]
  have A: "fetchAll scripted [] None ?a = fetchAll scripted [shirt, mug] (Some ''p2'') ?a1"
    using one s1 e1 by (simp add: fetched_def)
  have B: "fetchAll scripted [shirt, mug] (Some ''p2'') ?a1
        = Some (Inl TypeError,
            \<lparr>state = [],
             calls = [(AllProducts 250 None, ProductsData ?p1),
                      (AllProducts 250 (Some ''p2''), ProductsData ?p2)]\<rparr>)"
    using two s2 e2 by (simp add: fetched_def)
  have L: "loader scripted ?a = Some (Inl TypeError,
            \<lparr>state = [],
             calls = [(AllProducts 250 None, ProductsData ?p1),
                      (AllProducts 250 (Some ''p2''), ProductsData ?p2)]\<rparr>)"
    using A B by (simp add: loader_def)
  have C: "action_remove sample_runtime scripted ?fr ?a = Some (Inl TypeError,
            \<lparr>state = [],
             calls = [(AllProducts 250 None, ProductsData ?p1),
                      (AllProducts 250 (Some ''p2''), ProductsData ?p2)]\<rparr>)"
    using three sv e1 e2 nr L by auto
  have D: "action_add sample_runtime scripted ?fa ?a = Some (Inl TypeError,
            \<lparr>state = [],
             calls = [(AllProducts 250 None, ProductsData ?p1),
                      (AllProducts 250 (Some ''p2''), ProductsData ?p2)]\<rparr>)"
    using four sv e1 e2 na ja L by auto
  from A B L C D show ?thesis by blast
qed

subsection \<open>C10: a value text that is JSON but no list\<close>

text \<open>
  C10. When the option name and the values text pass validation and the text parses to
  a JSON value that is not an array (the text \<^verbatim>\<open>5\<close>, say), the action goes on to read
  the catalogue; if \<open>toAdd\<close> is then not empty, building the option input for its
  first product throws, and the action aborts with that \<^verbatim>\<open>TypeError\<close> after the
  listing calls, having created nothing. (If \<open>toAdd\<close> is empty the value is never
  used and the action reports success with count 0.)
\<close>

theorem add_aborts_on_non_array:
  assumes "form_name rt frm \<noteq> []" and "form_json frm \<noteq> []"
    and "JSON_parse rt (form_json frm) = Some v" and "\<forall>vs. v \<noteq> JArray vs"
    and "fetchAll g [] None a = Some (Inr all, a')"
  shows "(toAdd rt (form_name rt frm) all \<noteq> []
            \<longrightarrow> action_add rt g frm a = Some (Inl TypeError, a'))
       \<and> (toAdd rt (form_name rt frm) all = []
            \<longrightarrow> action_add rt g frm a
                = Some (Inr \<lparr>success = True, error = None, addedCount = Some 0\<rparr>, a'))"
  using assms(4,5)
  by (simp add: action_add_valid [where rt = rt and frm = frm and vals = v, OF assms(1,2,3)]
        add_loop_not_array)

text \<open>C10, an instance: the values text \<^verbatim>\<open>5\<close> and a catalogue of one product that
  lacks the option.\<close>

theorem add_aborts_on_non_array_witness:
  "form_name sample_runtime \<lparr>form_optionName = Some ''Size'', form_values = Some ''5''\<rparr> = ''Size''
   \<and> JSON_parse_sample ''5'' = Some (JNumber 5)
   \<and> toAdd sample_runtime ''Size'' [mug] = [mug]
   \<and> action_add sample_runtime scripted
        \<lparr>form_optionName = Some ''Size'', form_values = Some ''5''\<rparr>
        \<lparr>state = [ProductsData (page_of [mug] False), UserErrors []], calls = []\<rparr>
     = Some (Inl TypeError,
             \<lparr>state = [UserErrors []],
              calls = [(AllProducts 250 None, ProductsData (page_of [mug] False))]\<rparr>)"
proof -
  let ?f = "\<lparr>form_optionName = Some ''Size'', form_values = Some ''5''\<rparr>"
  let ?a = "\<lparr>state = [ProductsData (page_of [mug] False), UserErrors []], calls = []\<rparr>"
  have n: "form_name sample_runtime ?f = ''Size''" by (simp add: form_name_def trims)
  have h1: "form_name sample_runtime ?f \<noteq> []" by (simp add: n)
  have h2: "form_json ?f \<noteq> []" by (simp add: form_json_def)
  have h3: "JSON_parse sample_runtime (form_json ?f) = Some (JNumber 5)"
    by (simp add: form_json_def JSON_parse_sample_def red_text_def)
  have h4: "\<forall>vs. JNumber 5 \<noteq> JArray vs" by simp
  show ?thesis
    using add_aborts_on_non_array
      [where rt = sample_runtime and frm = ?f and g = scripted and a = ?a,
       OF h1 h2 h3 h4 sample_fetch]
      n h3
    by (simp add: toAdd_size form_json_def)
qed

end
